theory Spec2Isabelle
  imports Main "HOL-Library.AList"
begin

section \<open>Python string operations used by \<open>utilities/files.py\<close>\<close>

text \<open>The class \<open>IOFiles\<close> reads and writes raw text, JSON documents and tabular frames,
  one file at a time or for every file of a directory. Its operations are embedded as
  functions on an explicit world (filesystem, printed diagnostics); an exception that reaches
  the caller is a value. Strings are lists of characters; text encodings, permissions and
  symbolic links are not modelled.\<close>

text \<open>\<open>s.endswith(suf)\<close> and \<open>s.startswith(pre)\<close>.\<close>

definition endswith :: "string \<Rightarrow> string \<Rightarrow> bool" where
  "endswith s suf \<longleftrightarrow> length suf \<le> length s \<and> drop (length s - length suf) s = suf"

definition startswith :: "string \<Rightarrow> string \<Rightarrow> bool" where
  "startswith s pre \<longleftrightarrow> take (length pre) s = pre"

text \<open>\<open>s.replace(old, new)\<close>: every non-overlapping occurrence of \<open>old\<close>, found scanning
  from the left, is replaced by \<open>new\<close>; for the empty \<open>old\<close> Python inserts \<open>new\<close> before every
  character and at the end.\<close>

function replace :: "string \<Rightarrow> string \<Rightarrow> string \<Rightarrow> string" where
  "replace [] old new = (if old = [] then new else [])"
| "replace (c # cs) old new =
     (if old = [] then new @ c # replace cs old new
      else if startswith (c # cs) old then new @ replace (drop (length old) (c # cs)) old new
      else c # replace cs old new)"
  by pat_completeness auto
termination
  by (relation "measure (\<lambda>(s, old, new). length s)") auto

text \<open>\<open>posixpath.join(a, b)\<close> for two arguments.\<close>

definition path_join :: "string \<Rightarrow> string \<Rightarrow> string" where
  "path_join a b =
     (if startswith b ''/'' then b
      else if a = [] \<or> endswith a ''/'' then a @ b
      else a @ ''/'' @ b)"

text \<open>Universal-newline translation done by a text-mode \<open>read()\<close>: \<open>\r\n\<close> and a lone
  \<open>\r\<close> both become \<open>\n\<close>. (Writing in text mode on POSIX leaves the data as it is.)\<close>

fun universal_newlines :: "string \<Rightarrow> string" where
  "universal_newlines [] = []"
| "universal_newlines [c] = (if c = CHR 0x0D then [CHR 0x0A] else [c])"
| "universal_newlines (c # d # cs) =
     (if c = CHR 0x0D then
        (if d = CHR 0x0A then CHR 0x0A # universal_newlines cs
         else CHR 0x0A # universal_newlines (d # cs))
      else c # universal_newlines (d # cs))"

section \<open>Exceptions, diagnostics and values\<close>

text \<open>The exception classes that occur; \<open>OSError n\<close> is a plain \<open>OSError\<close> with errno \<open>n\<close>
  (36 is \<open>ENAMETOOLONG\<close>).\<close>

datatype exn =
    FileNotFoundError | IsADirectoryError | NotADirectoryError | FileExistsError
  | PermissionError | OSError nat
  | JSONDecodeError | UnicodeDecodeError | UnicodeEncodeError
  | ValueError | TypeError | AttributeError | CodecError

text \<open>The lines the module prints; the formatted exception is kept as the exception value.\<close>

datatype diag =
    File_not_found string
  | File_is_corrupted string
  | Error_Reading_File exn
  | Error_Writing_File exn
  | Error_Writing_JSON exn
  | Error_df exn
  | Error_Writing_CSV exn

text \<open>JSON-compatible Python values (floats are not modelled). A Python \<open>str\<close> is \<open>JStr\<close>, the
  empty dict \<open>{}\<close> is \<open>JObj []\<close>.\<close>

datatype json =
    JNull | JBool bool | JInt int | JStr string | JArr "json list" | JObj "(string \<times> json) list"

text \<open>A content value handled by the module: a JSON-compatible value (raw text included) or
  a tabular frame of the dataframe library.\<close>

datatype 'f content = Json json | Frame 'f

text \<open>The \<open>json\<close> and \<open>pandas\<close> libraries and the text encoding of the locale are not part
  of the repository; their codecs are parameters. \<open>json_loads\<close> returns \<open>None\<close> for
  \<open>JSONDecodeError\<close>; the frame codecs are selected by the dtype tag and may raise.
  A text-mode file encodes the text written to it and decodes the bytes read from it:
  \<open>text_encode\<close> returns \<open>None\<close> for \<open>UnicodeEncodeError\<close>, \<open>text_decode\<close> for
  \<open>UnicodeDecodeError\<close>.\<close>

record 'f codecs =
  json_dumps :: "json \<Rightarrow> nat \<Rightarrow> string"
  json_loads :: "string \<Rightarrow> json option"
  text_encode :: "string \<Rightarrow> string option"
  text_decode :: "string \<Rightarrow> string option"
  frame_decode :: "string \<Rightarrow> string \<Rightarrow> exn + 'f"
  frame_encode :: "string \<Rightarrow> 'f \<Rightarrow> exn + string"
  empty_frame :: 'f

section \<open>The filesystem\<close>

text \<open>A POSIX filesystem without symbolic links: every node is stored under its canonical
  path (the list of names from the root); the root is a directory; a file holds bytes.
  The world also holds the working directory, the diagnostics printed so far, the calls
  made into the dataframe library (tag and path), and the accesses the operating system
  refuses for a reason that the tree does not show (permissions, quota, device errors),
  each with the exception it raises: listing a directory, opening a file for reading or for
  writing, storing the data written to an open file, creating a directory.\<close>

datatype node = File string | Dir

type_synonym fstab = "(string list \<times> node) list"

datatype access = Listing | Reading | Writing | Storing | Creating

record world =
  fs :: fstab
  cwd :: "string list"
  out :: "diag list"
  frame_calls :: "(string \<times> string) list"
  refused :: "((access \<times> string list) \<times> exn) list"

definition fault :: "world \<Rightarrow> access \<Rightarrow> string list \<Rightarrow> exn option" where
  "fault w a k = map_of (refused w) (a, k)"

text \<open>The length in bytes of a name (UTF-8: a character from 128 on takes two bytes). A
  component may have 255 bytes (\<open>NAME_MAX\<close>), a path fewer than 4096 (\<open>PATH_MAX\<close>).\<close>

definition utf8_length :: "string \<Rightarrow> nat" where
  "utf8_length s = length s + length (filter (\<lambda>c. 128 \<le> (of_char c :: nat)) s)"

definition lookup :: "fstab \<Rightarrow> string list \<Rightarrow> node option" where
  "lookup t k = (if k = [] then Some Dir else map_of t k)"

text \<open>\<open>p.split('/')\<close>.\<close>

fun split_slash :: "string \<Rightarrow> string list" where
  "split_slash [] = [[]]"
| "split_slash (c # cs) =
     (if c = CHR ''/'' then [] # split_slash cs
      else (case split_slash cs of [] \<Rightarrow> [[c]] | x # xs \<Rightarrow> (c # x) # xs))"

text \<open>Path resolution, component by component: the node a further component is looked up in
  must be a directory; empty components and \<open>.\<close> stay, \<open>..\<close> goes to the parent (a
  directory in every real filesystem); a component above \<open>NAME_MAX\<close> raises \<open>OSError 36\<close>.\<close>

fun walk :: "fstab \<Rightarrow> string list \<Rightarrow> string list \<Rightarrow> exn + string list" where
  "walk t cur [] = Inr cur"
| "walk t cur (c # cs) =
     (case lookup t cur of
        None \<Rightarrow> Inl FileNotFoundError
      | Some (File d) \<Rightarrow> Inl NotADirectoryError
      | Some Dir \<Rightarrow>
          (if c = [] \<or> c = ''.'' then walk t cur cs
           else if c = ''..'' then
             (if lookup t (butlast cur) = Some Dir then walk t (butlast cur) cs
              else Inl FileNotFoundError)
           else if 255 < utf8_length c then Inl (OSError 36)
           else walk t (cur @ [c]) cs))"

definition start_dir :: "world \<Rightarrow> string \<Rightarrow> string list" where
  "start_dir w p = (if startswith p ''/'' then [] else cwd w)"

text \<open>What a path string itself is refused for: an embedded NUL (\<open>ValueError\<close>), the empty
  path, a path of \<open>PATH_MAX\<close> bytes or more.\<close>

definition path_error :: "string \<Rightarrow> exn option" where
  "path_error p =
     (if CHR 0x00 \<in> set p then Some ValueError
      else if p = [] then Some FileNotFoundError
      else if 4096 \<le> utf8_length p then Some (OSError 36)
      else None)"

definition resolve :: "world \<Rightarrow> string \<Rightarrow> exn + string list" where
  "resolve w p =
     (case path_error p of
        Some e \<Rightarrow> Inl e
      | None \<Rightarrow> walk (fs w) (start_dir w p) (split_slash p))"

text \<open>\<open>os.path.exists\<close>, \<open>os.path.isdir\<close>, \<open>os.listdir\<close>.\<close>

definition path_exists :: "world \<Rightarrow> string \<Rightarrow> bool" where
  "path_exists w p =
     (case resolve w p of Inl e \<Rightarrow> False | Inr k \<Rightarrow> lookup (fs w) k \<noteq> None)"

definition path_isdir :: "world \<Rightarrow> string \<Rightarrow> bool" where
  "path_isdir w p =
     (case resolve w p of Inl e \<Rightarrow> False | Inr k \<Rightarrow> lookup (fs w) k = Some Dir)"

definition children :: "fstab \<Rightarrow> string list \<Rightarrow> string list" where
  "children t d = remdups (map last (filter (\<lambda>k. k \<noteq> [] \<and> butlast k = d) (map fst t)))"

definition listdir :: "world \<Rightarrow> string \<Rightarrow> exn + string list" where
  "listdir w p =
     (case resolve w p of
        Inl e \<Rightarrow> Inl e
      | Inr k \<Rightarrow>
          (case lookup (fs w) k of
             None \<Rightarrow> Inl FileNotFoundError
           | Some (File d) \<Rightarrow> Inl NotADirectoryError
           | Some Dir \<Rightarrow>
               (case fault w Listing k of
                  Some e \<Rightarrow> Inl e
                | None \<Rightarrow> Inr (children (fs w) k))))"

text \<open>Opening a file for reading gives its bytes; opening a directory or a missing path
  raises, and so does a read that is refused.\<close>

definition open_read :: "world \<Rightarrow> string \<Rightarrow> exn + string" where
  "open_read w p =
     (case resolve w p of
        Inl e \<Rightarrow> Inl e
      | Inr k \<Rightarrow>
          (case lookup (fs w) k of
             None \<Rightarrow> Inl FileNotFoundError
           | Some Dir \<Rightarrow> Inl IsADirectoryError
           | Some (File d) \<Rightarrow>
               (case fault w Reading k of Some e \<Rightarrow> Inl e | None \<Rightarrow> Inr d)))"

definition put :: "string list \<Rightarrow> string \<Rightarrow> world \<Rightarrow> world" where
  "put k d w = w\<lparr>fs := AList.update k (File d) (fs w)\<rparr>"

text \<open>Opening a file for writing creates it empty or truncates it, and gives the node to
  write to; the parent must be an existing directory and the access must not be refused.
  Storing the data written to the open file can be refused too (a full disk).\<close>

definition truncate :: "string list \<Rightarrow> world \<Rightarrow> exn + (string list \<times> world)" where
  "truncate k w = (case fault w Writing k of Some e \<Rightarrow> Inl e | None \<Rightarrow> Inr (k, put k [] w))"

definition open_write :: "string \<Rightarrow> world \<Rightarrow> exn + (string list \<times> world)" where
  "open_write p w =
     (case resolve w p of
        Inl e \<Rightarrow> Inl e
      | Inr k \<Rightarrow>
          (case lookup (fs w) k of
             Some Dir \<Rightarrow> Inl IsADirectoryError
           | Some (File d) \<Rightarrow> truncate k w
           | None \<Rightarrow>
               (case lookup (fs w) (butlast k) of
                  Some Dir \<Rightarrow> truncate k w
                | Some (File d) \<Rightarrow> Inl NotADirectoryError
                | None \<Rightarrow> Inl FileNotFoundError)))"

definition store :: "string list \<Rightarrow> string \<Rightarrow> world \<Rightarrow> exn + world" where
  "store k b w = (case fault w Storing k of Some e \<Rightarrow> Inl e | None \<Rightarrow> Inr (put k b w))"

text \<open>\<open>os.makedirs(p)\<close>, after its documentation: the components are walked and every
  missing directory on the way is created; a component below a regular file raises; the
  leaf itself must not have existed (\<open>FileExistsError\<close>). Directories created before an
  error stay. A component is refused for an embedded NUL, for its length, for the length
  of the path up to it (\<open>pos\<close> counts the bytes before the component), or by the operating
  system. The walk gives the error, the new table and the node it ended at.\<close>

fun mkwalk ::
  "((access \<times> string list) \<times> exn) list \<Rightarrow> fstab \<Rightarrow> string list \<Rightarrow> nat \<Rightarrow> string list \<Rightarrow>
     exn option \<times> fstab \<times> string list" where
  "mkwalk r t cur pos [] = (None, t, cur)"
| "mkwalk r t cur pos (c # cs) =
     (case lookup t cur of
        None \<Rightarrow> (Some FileNotFoundError, t, cur)
      | Some (File d) \<Rightarrow> (Some NotADirectoryError, t, cur)
      | Some Dir \<Rightarrow>
          (if CHR 0x00 \<in> set c then (Some ValueError, t, cur)
           else if 4096 \<le> pos + utf8_length c then (Some (OSError 36), t, cur)
           else if c = [] \<or> c = ''.'' then mkwalk r t cur (pos + utf8_length c + 1) cs
           else if c = ''..'' then
             (if lookup t (butlast cur) = Some Dir
              then mkwalk r t (butlast cur) (pos + utf8_length c + 1) cs
              else (Some FileNotFoundError, t, cur))
           else if 255 < utf8_length c then (Some (OSError 36), t, cur)
           else (case lookup t (cur @ [c]) of
                   Some n \<Rightarrow> mkwalk r t (cur @ [c]) (pos + utf8_length c + 1) cs
                 | None \<Rightarrow>
                     (case map_of r (Creating, cur @ [c]) of
                        Some e \<Rightarrow> (Some e, t, cur)
                      | None \<Rightarrow>
                          mkwalk r (AList.update (cur @ [c]) Dir t) (cur @ [c])
                            (pos + utf8_length c + 1) cs))))"

type_synonym 'a io = "world \<Rightarrow> (exn + 'a) \<times> world"

definition makedirs :: "string \<Rightarrow> unit io" where
  "makedirs p w =
     (if p = [] then (Inl FileNotFoundError, w)
      else (case mkwalk (refused w) (fs w) (start_dir w p) 0 (split_slash p) of
              (Some e, t, k) \<Rightarrow> (Inl e, w\<lparr>fs := t\<rparr>)
            | (None, t, k) \<Rightarrow>
                (if lookup (fs w) k = None then (Inr (), w\<lparr>fs := t\<rparr>)
                 else (Inl FileExistsError, w\<lparr>fs := t\<rparr>))))"

definition print :: "diag \<Rightarrow> world \<Rightarrow> world" where
  "print d w = w\<lparr>out := out w @ [d]\<rparr>"

definition tabular :: "string list" where
  "tabular = [''csv'', ''xlsx'', ''pickle'']"

section \<open>Per-file operations of \<open>IOFiles\<close>\<close>

text \<open>Every operation maps a world to its outcome (\<open>Inl\<close> an exception that reaches the
  caller) and the world it leaves.\<close>

text \<open>\<open>with open(path, "r") as file: file.read()\<close>: the bytes are decoded and the line ends
  translated. \<open>with open(path, "w") as file: file.write(s)\<close> on the open node: the text is
  encoded and stored.\<close>

definition read_text :: "'f codecs \<Rightarrow> world \<Rightarrow> string \<Rightarrow> exn + string" where
  "read_text L w path =
     (case open_read w path of
        Inl e \<Rightarrow> Inl e
      | Inr b \<Rightarrow>
          (case text_decode L b of
             None \<Rightarrow> Inl UnicodeDecodeError
           | Some s \<Rightarrow> Inr (universal_newlines s)))"

definition write_text :: "'f codecs \<Rightarrow> string list \<Rightarrow> string \<Rightarrow> world \<Rightarrow> exn + world" where
  "write_text L k s w =
     (case text_encode L s of None \<Rightarrow> Inl UnicodeEncodeError | Some b \<Rightarrow> store k b w)"

definition read_file :: "'f codecs \<Rightarrow> string \<Rightarrow> string io" where
  "read_file L path w =
     (case read_text L w path of
        Inr s \<Rightarrow> (Inr s, w)
      | Inl e \<Rightarrow>
          (if e = FileNotFoundError then (Inr [], print (File_not_found path) w)
           else (Inr [], print (Error_Reading_File e) w)))"

definition read_file_async :: "'f codecs \<Rightarrow> string \<Rightarrow> string io" where
  "read_file_async L path w =
     (case read_text L w path of
        Inr s \<Rightarrow> (Inr s, w)
      | Inl e \<Rightarrow>
          (if e = FileNotFoundError then (Inr [], print (File_not_found path) w)
           else (Inr [], print (Error_Reading_File e) w)))"

text \<open>A write that fails after the open leaves the file truncated.\<close>

definition write_file :: "'f codecs \<Rightarrow> string \<Rightarrow> 'f content \<Rightarrow> unit io" where
  "write_file L path data w =
     (case open_write path w of
        Inl e \<Rightarrow> (Inr (), print (Error_Writing_File e) w)
      | Inr (k, w1) \<Rightarrow>
          (case data of
             Json (JStr s) \<Rightarrow>
               (case write_text L k s w1 of
                  Inl e \<Rightarrow> (Inr (), print (Error_Writing_File e) w1)
                | Inr w2 \<Rightarrow> (Inr (), w2))
           | _ \<Rightarrow> (Inr (), print (Error_Writing_File TypeError) w1)))"

definition write_file_async :: "'f codecs \<Rightarrow> string \<Rightarrow> 'f content \<Rightarrow> unit io" where
  "write_file_async L path data w =
     (case open_write path w of
        Inl e \<Rightarrow> (Inr (), print (Error_Writing_File e) w)
      | Inr (k, w1) \<Rightarrow>
          (case data of
             Json (JStr s) \<Rightarrow>
               (case write_text L k s w1 of
                  Inl e \<Rightarrow> (Inr (), print (Error_Writing_File e) w1)
                | Inr w2 \<Rightarrow> (Inr (), w2))
           | _ \<Rightarrow> (Inr (), print (Error_Writing_File TypeError) w1)))"

text \<open>The JSON readers catch \<open>FileNotFoundError\<close> and \<open>JSONDecodeError\<close> only.\<close>

definition read_json :: "'f codecs \<Rightarrow> string \<Rightarrow> json io" where
  "read_json L path w =
     (case read_text L w path of
        Inr s \<Rightarrow>
          (case json_loads L s of
             Some j \<Rightarrow> (Inr j, w)
           | None \<Rightarrow> (Inr (JObj []), print (File_is_corrupted path) w))
      | Inl e \<Rightarrow>
          (if e = FileNotFoundError then (Inr (JObj []), print (File_not_found path) w)
           else (Inl e, w)))"

definition read_json_async :: "'f codecs \<Rightarrow> string \<Rightarrow> json io" where
  "read_json_async L path w =
     (case read_text L w path of
        Inr s \<Rightarrow>
          (case json_loads L s of
             Some j \<Rightarrow> (Inr j, w)
           | None \<Rightarrow> (Inr (JObj []), print (File_is_corrupted path) w))
      | Inl e \<Rightarrow>
          (if e = FileNotFoundError then (Inr (JObj []), print (File_not_found path) w)
           else (Inl e, w)))"

definition json_path :: "string \<Rightarrow> string" where
  "json_path path = (if endswith path ''.json'' then path else path @ ''.json'')"

definition write_json :: "'f codecs \<Rightarrow> string \<Rightarrow> 'f content \<Rightarrow> nat \<Rightarrow> unit io" where
  "write_json L path data indent w =
     (case open_write (json_path path) w of
        Inl e \<Rightarrow> (Inr (), print (Error_Writing_JSON e) w)
      | Inr (k, w1) \<Rightarrow>
          (case data of
             Json j \<Rightarrow>
               (case write_text L k (json_dumps L j indent) w1 of
                  Inl e \<Rightarrow> (Inr (), print (Error_Writing_JSON e) w1)
                | Inr w2 \<Rightarrow> (Inr (), w2))
           | Frame f \<Rightarrow> (Inr (), print (Error_Writing_JSON TypeError) w1)))"

definition write_json_async :: "'f codecs \<Rightarrow> string \<Rightarrow> 'f content \<Rightarrow> nat \<Rightarrow> unit io" where
  "write_json_async L path data indent w =
     (case open_write (json_path path) w of
        Inl e \<Rightarrow> (Inr (), print (Error_Writing_JSON e) w)
      | Inr (k, w1) \<Rightarrow>
          (case data of
             Json j \<Rightarrow>
               (case write_text L k (json_dumps L j indent) w1 of
                  Inl e \<Rightarrow> (Inr (), print (Error_Writing_JSON e) w1)
                | Inr w2 \<Rightarrow> (Inr (), w2))
           | Frame f \<Rightarrow> (Inr (), print (Error_Writing_JSON TypeError) w1)))"

text \<open>The tabular reader and writer: the dataframe library is entered for the three known
  tags only (recorded in \<open>frame_calls\<close>); every exception is caught and printed.\<close>

definition called :: "string \<Rightarrow> string \<Rightarrow> world \<Rightarrow> world" where
  "called dtype path w = w\<lparr>frame_calls := frame_calls w @ [(dtype, path)]\<rparr>"

definition df_failed :: "'f codecs \<Rightarrow> string \<Rightarrow> exn \<Rightarrow> 'f io" where
  "df_failed L path e w =
     (if e = FileNotFoundError then (Inr (empty_frame L), print (File_not_found path) w)
      else (Inr (empty_frame L), print (Error_df e) w))"

definition read_df :: "'f codecs \<Rightarrow> string \<Rightarrow> string \<Rightarrow> 'f io" where
  "read_df L path dtype w =
     (if dtype = ''csv'' \<or> dtype = ''pickle'' \<or> dtype = ''xlsx'' then
        (let w1 = called dtype path w in
         case open_read w1 path of
           Inl e \<Rightarrow> df_failed L path e w1
         | Inr d \<Rightarrow>
             (case frame_decode L dtype d of
                Inl e \<Rightarrow> df_failed L path e w1
              | Inr f \<Rightarrow> (Inr f, w1)))
      else df_failed L path ValueError w)"

definition write_df :: "'f codecs \<Rightarrow> string \<Rightarrow> 'f content \<Rightarrow> string \<Rightarrow> unit io" where
  "write_df L path data dtype w =
     (if dtype = ''csv'' \<or> dtype = ''pickle'' \<or> dtype = ''xlsx'' then
        (case data of
           Json j \<Rightarrow> (Inr (), print (Error_Writing_CSV AttributeError) w)
         | Frame f \<Rightarrow>
             (let w1 = called dtype path w in
              case open_write path w1 of
                Inl e \<Rightarrow> (Inr (), print (Error_Writing_CSV e) w1)
              | Inr (k, w2) \<Rightarrow>
                  (case frame_encode L dtype f of
                     Inl e \<Rightarrow> (Inr (), print (Error_Writing_CSV e) w2)
                   | Inr d \<Rightarrow>
                       (case store k d w2 of
                          Inl e \<Rightarrow> (Inr (), print (Error_Writing_CSV e) w2)
                        | Inr w3 \<Rightarrow> (Inr (), w3)))))
      else (Inr (), print (Error_Writing_CSV ValueError) w))"

section \<open>Directory-level operations of \<open>IOFiles\<close>\<close>

definition returning :: "('a \<Rightarrow> 'b) \<Rightarrow> 'a io \<Rightarrow> 'b io" where
  "returning f m w = (case m w of (Inl e, w1) \<Rightarrow> (Inl e, w1) | (Inr v, w1) \<Rightarrow> (Inr (f v), w1))"

text \<open>A Python \<open>dict\<close> is an association list with distinct keys in insertion order;
  \<open>d[k] = v\<close> is \<open>AList.update k v d\<close>, and two dicts are equal when they are equal as maps.\<close>

type_synonym 'f pydict = "(string \<times> 'f content) list"

text \<open>The body of the reader's loop: the read selected by the dtype tag.\<close>

definition read_entry :: "'f codecs \<Rightarrow> string \<Rightarrow> string \<Rightarrow> string \<Rightarrow> 'f content io" where
  "read_entry L path dtype file =
     (if dtype = ''json'' then returning Json (read_json L (path_join path file))
      else if dtype \<in> set tabular then returning Frame (read_df L (path_join path file) dtype)
      else returning (\<lambda>s. Json (JStr s)) (read_file L (path_join path file)))"

fun read_dir_loop ::
  "'f codecs \<Rightarrow> string \<Rightarrow> string \<Rightarrow> string list \<Rightarrow> 'f pydict \<Rightarrow> 'f pydict io" where
  "read_dir_loop L path dtype [] contents w = (Inr contents, w)"
| "read_dir_loop L path dtype (file # files) contents w =
     (if endswith file dtype then
        (case read_entry L path dtype file w of
           (Inl e, w1) \<Rightarrow> (Inl e, w1)
         | (Inr v, w1) \<Rightarrow>
             read_dir_loop L path dtype files
               (AList.update (replace file (''.'' @ dtype) []) v contents) w1)
      else read_dir_loop L path dtype files contents w)"

definition read_dir_contents :: "'f codecs \<Rightarrow> string \<Rightarrow> string \<Rightarrow> 'f pydict io" where
  "read_dir_contents L path dtype w =
     (if path_exists w path \<and> path_isdir w path then
        (case listdir w path of
           Inl e \<Rightarrow> (Inl e, w)
         | Inr files \<Rightarrow> read_dir_loop L path dtype files [] w)
      else (Inr [], w))"

text \<open>\<open>asyncio.gather(*tasks)\<close>, sequentialised: every task runs to its end in list order
  (tasks are not cancelled when one of them raises), then the first exception, if any,
  is raised in the caller; otherwise the results come back in task order.\<close>

fun run_all :: "'a io list \<Rightarrow> world \<Rightarrow> (exn + 'a) list \<times> world" where
  "run_all [] w = ([], w)"
| "run_all (t # ts) w =
     (case t w of (r, w1) \<Rightarrow> (case run_all ts w1 of (rs, w2) \<Rightarrow> (r # rs, w2)))"

fun first_exn :: "(exn + 'a) list \<Rightarrow> exn option" where
  "first_exn [] = None"
| "first_exn (Inl e # rs) = Some e"
| "first_exn (Inr v # rs) = first_exn rs"

fun results_of :: "(exn + 'a) list \<Rightarrow> 'a list" where
  "results_of [] = []"
| "results_of (Inl e # rs) = results_of rs"
| "results_of (Inr v # rs) = v # results_of rs"

definition gather :: "'a io list \<Rightarrow> 'a list io" where
  "gather tasks w =
     (case run_all tasks w of
        (rs, w1) \<Rightarrow>
          (case first_exn rs of Some e \<Rightarrow> (Inl e, w1) | None \<Rightarrow> (Inr (results_of rs), w1)))"

text \<open>The async reader's loop: the tasks and the identifiers, in listing order.\<close>

fun read_tasks ::
  "'f codecs \<Rightarrow> string \<Rightarrow> string \<Rightarrow> string list \<Rightarrow> 'f content io list \<times> string list" where
  "read_tasks L path dtype [] = ([], [])"
| "read_tasks L path dtype (file # files) =
     (case read_tasks L path dtype files of
        (tasks, idents) \<Rightarrow>
          (if endswith file dtype then
             ((if dtype = ''json'' then returning Json (read_json_async L (path_join path file))
               else returning (\<lambda>s. Json (JStr s)) (read_file_async L (path_join path file)))
                # tasks,
              (if dtype \<noteq> ''all'' then replace file (''.'' @ dtype) [] else file) # idents)
           else (tasks, idents)))"

definition dict_of :: "(string \<times> 'v) list \<Rightarrow> (string \<times> 'v) list" where
  "dict_of kvs = fold (\<lambda>(k, v). AList.update k v) kvs []"

definition read_dir_contents_async :: "'f codecs \<Rightarrow> string \<Rightarrow> string \<Rightarrow> 'f pydict io" where
  "read_dir_contents_async L path dtype w =
     (case (if path_exists w path \<and> path_isdir w path then
              (case listdir w path of
                 Inl e \<Rightarrow> Inl e
               | Inr files \<Rightarrow> Inr (read_tasks L path dtype files))
            else Inr ([], [])) of
        Inl e \<Rightarrow> (Inl e, w)
      | Inr (tasks, idents) \<Rightarrow>
          (case gather tasks w of
             (Inl e, w1) \<Rightarrow> (Inl e, w1)
           | (Inr results, w1) \<Rightarrow> (Inr (dict_of (zip idents results)), w1)))"

text \<open>The writers. \<open>write_json\<close> is called with its default indentation 4.\<close>

definition write_entry ::
  "'f codecs \<Rightarrow> string \<Rightarrow> string \<Rightarrow> string \<Rightarrow> 'f content \<Rightarrow> unit io" where
  "write_entry L path dtype ident content =
     (let file_path = path_join path (ident @ ''.'' @ dtype) in
      if dtype = ''json'' then write_json L file_path content 4
      else if dtype \<in> set tabular then write_df L file_path content dtype
      else write_file L file_path content)"

fun write_loop :: "'f codecs \<Rightarrow> string \<Rightarrow> string \<Rightarrow> 'f pydict \<Rightarrow> unit io" where
  "write_loop L path dtype [] w = (Inr (), w)"
| "write_loop L path dtype ((ident, content) # rest) w =
     (case write_entry L path dtype ident content w of
        (Inl e, w1) \<Rightarrow> (Inl e, w1)
      | (Inr u, w1) \<Rightarrow> write_loop L path dtype rest w1)"

definition write_contents_to_dir :: "'f codecs \<Rightarrow> string \<Rightarrow> 'f pydict \<Rightarrow> string \<Rightarrow> unit io" where
  "write_contents_to_dir L path contents dtype w =
     (if \<not> path_exists w path then
        (case makedirs path w of
           (Inl e, w1) \<Rightarrow> (Inl e, w1)
         | (Inr u, w1) \<Rightarrow> write_loop L path dtype contents w1)
      else write_loop L path dtype contents w)"

definition write_task ::
  "'f codecs \<Rightarrow> string \<Rightarrow> string \<Rightarrow> string \<times> 'f content \<Rightarrow> unit io" where
  "write_task L path dtype entry =
     (let file_path = path_join path (fst entry @ ''.'' @ dtype) in
      if dtype = ''json'' then write_json_async L file_path (snd entry) 4
      else write_file_async L file_path (snd entry))"

definition write_contents_to_dir_async ::
  "'f codecs \<Rightarrow> string \<Rightarrow> 'f pydict \<Rightarrow> string \<Rightarrow> unit io" where
  "write_contents_to_dir_async L path contents dtype w =
     (case (if \<not> path_exists w path then makedirs path w else (Inr (), w)) of
        (Inl e, w1) \<Rightarrow> (Inl e, w1)
      | (Inr u, w1) \<Rightarrow>
          (case gather (map (write_task L path dtype) contents) w1 of
             (Inl e, w2) \<Rightarrow> (Inl e, w2)
           | (Inr results, w2) \<Rightarrow> (Inr (), w2)))"

section \<open>Example data\<close>

text \<open>A small codec (frames are byte strings; the JSON codec agrees with \<open>json\<close> on the
  empty object and on strings of plain letters, the only values used below; the text
  encoding is that of a Latin-1 locale, where bytes and characters coincide) and a world
  with a directory \<open>d\<close> and a regular file \<open>f\<close>. The operating system refuses nothing in
  the example worlds.\<close>

definition toy_dumps :: "json \<Rightarrow> nat \<Rightarrow> string" where
  "toy_dumps j indent = (case j of JStr s \<Rightarrow> CHR 0x22 # s @ [CHR 0x22] | _ \<Rightarrow> ''{}'')"

definition toy_loads :: "string \<Rightarrow> json option" where
  "toy_loads s =
     (if s = ''{}'' then Some (JObj [])
      else if 2 \<le> length s \<and> hd s = CHR 0x22 \<and> last s = CHR 0x22
        then Some (JStr (butlast (tl s)))
      else None)"

definition toy :: "string codecs" where
  "toy = \<lparr>json_dumps = toy_dumps, json_loads = toy_loads,
          text_encode = Some, text_decode = Some,
          frame_decode = (\<lambda>tag d. if d = [] then Inl CodecError else Inr d),
          frame_encode = (\<lambda>tag f. Inr f), empty_frame = []\<rparr>"

definition world0 :: world where
  "world0 = \<lparr>fs = [([''d''], Dir), ([''f''], File ''x'')], cwd = [], out = [], frame_calls = [], refused = []\<rparr>"

text \<open>A directory holding \<open>a.json.json\<close>; one holding \<open>notes.txt\<close> and \<open>install\<close>; one holding
  a subdirectory \<open>sub.json\<close> beside the file \<open>b.json\<close>.\<close>

definition world_dup :: world where
  "world_dup = \<lparr>fs = [([''d''], Dir), ([''d'', ''a.json.json''], File ''{}'')],
                 cwd = [], out = [], frame_calls = [], refused = []\<rparr>"

definition world_all :: world where
  "world_all = \<lparr>fs = [([''d''], Dir), ([''d'', ''notes.txt''], File ''hi''),
                       ([''d'', ''install''], File ''x'')],
                 cwd = [], out = [], frame_calls = [], refused = []\<rparr>"

definition world_sub :: world where
  "world_sub = \<lparr>fs = [([''d''], Dir), ([''d'', ''sub.json''], Dir),
                       ([''d'', ''b.json''], File ''{}'')],
                 cwd = [], out = [], frame_calls = [], refused = []\<rparr>"

text \<open>A directory holding the delimited-text file \<open>t.csv\<close>.\<close>

definition world_csv :: world where
  "world_csv = \<lparr>fs = [([''d''], Dir), ([''d'', ''t.csv''], File ''a,b'')],
                 cwd = [], out = [], frame_calls = [], refused = []\<rparr>"

text \<open>A path that names a regular file (\<open>os.path.isfile\<close>), used to state what the writers
  do on one.\<close>

definition path_isfile :: "world \<Rightarrow> string \<Rightarrow> bool" where
  "path_isfile w p =
     (case resolve w p of
        Inl e \<Rightarrow> False
      | Inr k \<Rightarrow> (case lookup (fs w) k of Some (File d) \<Rightarrow> True | _ \<Rightarrow> False))"

text \<open>Two entries to write.\<close>

definition entries_ab :: "string pydict" where
  "entries_ab = [(''a'', Json (JStr ''one'')), (''b'', Json (JObj []))]"

text \<open>The three ways a write ends when every failure is caught: the data are stored in the
  created or truncated file; one diagnostic is printed and nothing else changes; one
  diagnostic is printed and the file is left empty.\<close>

definition write_outcome :: "world \<Rightarrow> (exn + unit) \<times> world \<Rightarrow> bool" where
  "write_outcome w r \<longleftrightarrow>
     (\<exists>k b. r = (Inr (), put k b (put k [] w))) \<or>
     (\<exists>d. r = (Inr (), print d w)) \<or>
     (\<exists>d k. r = (Inr (), print d (put k [] w)))"

text \<open>A world whose directory \<open>d\<close> may not be listed and in which the data of \<open>d/t.txt\<close>
  cannot be stored (errno 28, no space left).\<close>

definition world_hard :: world where
  "world_hard = \<lparr>fs = [([''d''], Dir), ([''f''], File ''x'')], cwd = [], out = [],
                  frame_calls = [],
                  refused = [((Listing, [''d'']), PermissionError),
                             ((Storing, [''d'', ''t.txt'']), OSError 28)]\<rparr>"

text \<open>The entries the round trip is stated for. A file name is valid when it is a single
  component other than \<open>.\<close> and \<open>..\<close>, without NUL and within \<open>NAME_MAX\<close>. An entry is plain
  for a dtype tag when its file name \<open><ident>.<dtype>\<close> is valid and holds the suffix
  \<open>.<dtype>\<close> nowhere before its end. \<open>text_round_trip\<close> is the text read back from a file
  that a text was written to. A content is storable under a tag when the writer selected by
  the tag can store it and the reader gets it back: under \<open>json\<close> a JSON value whose
  serialisation is read back and parsed to the same value, under a raw-text tag a string
  that is read back unchanged. \<open>reads_back\<close> relates the bytes of a file to the content the
  reader selected by the tag makes of them.\<close>

definition valid_name :: "string \<Rightarrow> bool" where
  "valid_name f \<longleftrightarrow>
     CHR ''/'' \<notin> set f \<and> CHR 0x00 \<notin> set f \<and> f \<noteq> [] \<and> f \<noteq> ''.'' \<and> f \<noteq> ''..'' \<and>
     utf8_length f \<le> 255"

definition plain_entry :: "string \<Rightarrow> string \<Rightarrow> bool" where
  "plain_entry ident dtype \<longleftrightarrow>
     (let name = ident @ ''.'' @ dtype in
      valid_name name \<and>
      (\<forall>i \<in> {0..<length ident}. \<not> startswith (drop i name) (''.'' @ dtype)))"

definition text_round_trip :: "'f codecs \<Rightarrow> string \<Rightarrow> string option" where
  "text_round_trip L s =
     (case text_encode L s of
        None \<Rightarrow> None
      | Some b \<Rightarrow>
          (case text_decode L b of None \<Rightarrow> None | Some t \<Rightarrow> Some (universal_newlines t)))"

definition storable :: "'f codecs \<Rightarrow> string \<Rightarrow> 'f content \<Rightarrow> bool" where
  "storable L dtype c =
     (case c of
        Frame f \<Rightarrow> False
      | Json j \<Rightarrow>
          (if dtype = ''json'' then
             (case text_round_trip L (json_dumps L j 4) of
                None \<Rightarrow> False
              | Some t \<Rightarrow> json_loads L t = Some j)
           else (case j of JStr s \<Rightarrow> text_round_trip L s = Some s | _ \<Rightarrow> False)))"

definition reads_back :: "'f codecs \<Rightarrow> string \<Rightarrow> string \<Rightarrow> 'f content \<Rightarrow> bool" where
  "reads_back L dtype b c =
     (case text_decode L b of
        None \<Rightarrow> False
      | Some t \<Rightarrow>
          (if dtype = ''json'' then
             (case c of Json j \<Rightarrow> json_loads L (universal_newlines t) = Some j | Frame f \<Rightarrow> False)
           else c = Json (JStr (universal_newlines t))))"

text \<open>A directory that already holds \<open>old.json\<close>.\<close>

definition world_old :: world where
  "world_old = \<lparr>fs = [([''d''], Dir), ([''d'', ''old.json''], File ''{}'')],
                 cwd = [], out = [], frame_calls = [], refused = []\<rparr>"


section \<open>The tabular reader never raises\<close>

lemma resolve_called [simp]: "resolve (called dtype path w) p = resolve w p"
  by (simp add: resolve_def called_def start_dir_def split: option.splits)

lemma fault_called [simp]: "fault (called dtype path w) a k = fault w a k"
  by (simp add: fault_def called_def)

lemma open_read_missing:
  assumes "\<not> path_exists w p"
  shows "\<exists>e. open_read w p = Inl e"
  using assms by (auto simp: path_exists_def open_read_def split: sum.splits option.splits node.splits)

lemma fs_called [simp]: "fs (called dtype path w) = fs w"
  by (simp add: called_def)

lemma open_read_called [simp]: "open_read (called dtype path w) p = open_read w p"
  by (simp add: open_read_def split: sum.splits option.splits node.splits)

text \<open>Claim C8. For a dtype tag outside csv, pickle and xlsx the tabular reader raises
  \<open>ValueError\<close> internally, prints it and returns the empty frame; for a missing file and a
  known tag it prints one diagnostic and returns the empty frame. In both cases the outcome
  is a value, never an exception.\<close>

theorem read_df_unknown_or_missing:
  "(dtype \<noteq> ''csv'' \<and> dtype \<noteq> ''pickle'' \<and> dtype \<noteq> ''xlsx'' \<longrightarrow>
      read_df L path dtype w = (Inr (empty_frame L), print (Error_df ValueError) w)) \<and>
   ((dtype = ''csv'' \<or> dtype = ''pickle'' \<or> dtype = ''xlsx'') \<and> \<not> path_exists w path \<longrightarrow>
      (\<exists>d. read_df L path dtype w = (Inr (empty_frame L), print d (called dtype path w))))"
proof (intro conjI impI)
  assume "dtype \<noteq> ''csv'' \<and> dtype \<noteq> ''pickle'' \<and> dtype \<noteq> ''xlsx''"
  then show "read_df L path dtype w = (Inr (empty_frame L), print (Error_df ValueError) w)"
    by (simp add: read_df_def df_failed_def)
next
  assume a: "(dtype = ''csv'' \<or> dtype = ''pickle'' \<or> dtype = ''xlsx'') \<and> \<not> path_exists w path"
  then obtain e where e: "open_read w path = Inl e"
    using open_read_missing by blast
  from a have known: "dtype = ''csv'' \<or> dtype = ''pickle'' \<or> dtype = ''xlsx''" by simp
  have "read_df L path dtype w = df_failed L path e (called dtype path w)"
    using known e by (simp add: read_df_def Let_def)
  then show "\<exists>d. read_df L path dtype w = (Inr (empty_frame L), print d (called dtype path w))"
    by (auto simp: df_failed_def)
qed

theorem read_df_unknown_or_missing_witness:
  "read_df toy ''d/t.txt'' ''txt'' world0 = (Inr [], print (Error_df ValueError) world0) \<and>
   \<not> path_exists world0 ''d/t.csv'' \<and>
   (\<exists>d. read_df toy ''d/t.csv'' ''csv'' world0 = (Inr [], print d (called ''csv'' ''d/t.csv'' world0)))"
proof -
  have missing: "\<not> path_exists world0 ''d/t.csv''" by code_simp
  have e: "empty_frame toy = []" by (simp add: toy_def)
  show ?thesis
    using read_df_unknown_or_missing [of "''txt''" toy "''d/t.txt''" world0]
      read_df_unknown_or_missing [of "''csv''" toy "''d/t.csv''" world0] missing
    by (simp add: e)
qed

section \<open>The directory readers on a path that is no directory\<close>

text \<open>Claim C7. When the path does not exist, or exists but is not a directory, both
  directory readers return the empty mapping for every dtype tag, raise nothing and leave
  the world as it was.\<close>

theorem read_dir_no_directory:
  assumes "\<not> path_exists w path \<or> \<not> path_isdir w path"
  shows "read_dir_contents L path dtype w = (Inr [], w) \<and>
         read_dir_contents_async L path dtype w = (Inr [], w)"
  using assms
  by (auto simp: read_dir_contents_def read_dir_contents_async_def gather_def dict_of_def)

theorem read_dir_no_directory_witness:
  "\<not> path_exists world0 ''nowhere'' \<and> path_exists world0 ''f'' \<and> \<not> path_isdir world0 ''f'' \<and>
   read_dir_contents toy ''nowhere'' ''json'' world0 = (Inr [], world0) \<and>
   read_dir_contents_async toy ''nowhere'' ''json'' world0 = (Inr [], world0) \<and>
   read_dir_contents toy ''f'' ''txt'' world0 = (Inr [], world0) \<and>
   read_dir_contents_async toy ''f'' ''txt'' world0 = (Inr [], world0)"
proof -
  have a: "\<not> path_exists world0 ''nowhere''" by code_simp
  have b: "\<not> path_isdir world0 ''f''" by code_simp
  have c: "path_exists world0 ''f''" by code_simp
  show ?thesis
    using read_dir_no_directory [of world0 "''nowhere''" toy "''json''"]
      read_dir_no_directory [of world0 "''f''" toy "''txt''"] a b c
    by simp
qed

section \<open>Keys of the directory content map\<close>

text \<open>Claim C3 says that a key is the on-disk filename with exactly its trailing dtype
  suffix removed. The readers compute the key with \<open>file.replace("." + dtype, "")\<close>, which
  removes every occurrence: in a directory whose only entry is \<open>a.json.json\<close> both readers
  return the key \<open>a\<close>, not \<open>a.json\<close>.\<close>

theorem read_dir_key_removes_every_suffix:
  "listdir world_dup ''d'' = Inr [''a.json.json''] \<and>
   fst (read_dir_contents toy ''d'' ''json'' world_dup) = Inr [(''a'', Json (JObj []))] \<and>
   fst (read_dir_contents_async toy ''d'' ''json'' world_dup) = Inr [(''a'', Json (JObj []))]"
  by code_simp

text \<open>Claim C6 says that with the tag \<open>all\<close> the async reader keeps every entry under its
  full filename. The filter \<open>file.endswith(dtype)\<close> runs first, with \<open>dtype = "all"\<close>: of
  \<open>notes.txt\<close> and \<open>install\<close> only \<open>install\<close> is kept.\<close>

theorem read_dir_async_all_keeps_only_names_ending_in_all:
  "listdir world_all ''d'' = Inr [''notes.txt'', ''install''] \<and>
   fst (read_dir_contents_async toy ''d'' ''all'' world_all) = Inr [(''install'', Json (JStr ''x''))]"
  by code_simp

section \<open>Exceptions leaving the async JSON read task\<close>

text \<open>Claim C4 says that no exception of a task leaves the directory-level call. The task
  \<open>read_json_async\<close> catches \<open>FileNotFoundError\<close> and \<open>JSONDecodeError\<close> only: on the entry
  \<open>sub.json\<close>, a directory, opening raises \<open>IsADirectoryError\<close>, which leaves the task and is
  raised by the join in the async directory reader.\<close>

theorem read_dir_async_json_task_raises:
  "read_json_async toy ''d/sub.json'' world_sub = (Inl IsADirectoryError, world_sub) \<and>
   read_dir_contents_async toy ''d'' ''json'' world_sub = (Inl IsADirectoryError, world_sub)"
  by code_simp

section \<open>The async directory operations and the tabular codec\<close>

lemma frame_calls_print [simp]: "frame_calls (print d w) = frame_calls w"
  by (simp add: print_def)

lemma frame_calls_put [simp]: "frame_calls (put k d w) = frame_calls w"
  by (simp add: put_def)

lemma truncate_frame_calls:
  "truncate k w = Inr (k', w1) \<Longrightarrow> frame_calls w1 = frame_calls w"
  by (auto simp: truncate_def split: option.splits)

lemma open_write_frame_calls:
  "open_write p w = Inr (k, w1) \<Longrightarrow> frame_calls w1 = frame_calls w"
  by (auto simp: open_write_def dest: truncate_frame_calls
      split: sum.splits option.splits node.splits)

lemma store_frame_calls: "store k b w = Inr w1 \<Longrightarrow> frame_calls w1 = frame_calls w"
  by (auto simp: store_def split: option.splits)

lemma write_text_frame_calls:
  "write_text L k s w = Inr w1 \<Longrightarrow> frame_calls w1 = frame_calls w"
  by (auto simp: write_text_def dest: store_frame_calls split: option.splits)

lemma read_file_async_frame_calls [simp]:
  "frame_calls (snd (read_file_async L p w)) = frame_calls w"
  by (simp add: read_file_async_def split: sum.splits)

lemma read_json_async_frame_calls [simp]:
  "frame_calls (snd (read_json_async L p w)) = frame_calls w"
  by (simp add: read_json_async_def split: sum.splits option.splits)

lemma write_file_async_frame_calls [simp]:
  "frame_calls (snd (write_file_async L p c w)) = frame_calls w"
proof (cases "open_write p w")
  case (Inl e)
  then show ?thesis by (simp add: write_file_async_def)
next
  case (Inr r)
  obtain k w1 where r: "r = (k, w1)" by (cases r)
  with Inr have w1: "frame_calls w1 = frame_calls w" by (auto dest: open_write_frame_calls)
  show ?thesis
  proof (cases "\<exists>s. c = Json (JStr s)")
    case True
    then obtain s where s: "c = Json (JStr s)" by blast
    show ?thesis
    proof (cases "write_text L k s w1")
      case (Inl e)
      with Inr r s w1 show ?thesis by (simp add: write_file_async_def)
    next
      case (Inr w2)
      with write_text_frame_calls [OF Inr] \<open>open_write p w = Inr r\<close> r s w1 show ?thesis
        by (simp add: write_file_async_def)
    qed
  next
    case False
    with Inr r w1 show ?thesis
      by (auto simp: write_file_async_def split: content.splits json.splits)
  qed
qed

lemma write_json_async_frame_calls [simp]:
  "frame_calls (snd (write_json_async L p c n w)) = frame_calls w"
proof (cases "open_write (json_path p) w")
  case (Inl e)
  then show ?thesis by (simp add: write_json_async_def)
next
  case (Inr r)
  obtain k w1 where r: "r = (k, w1)" by (cases r)
  with Inr have w1: "frame_calls w1 = frame_calls w" by (auto dest: open_write_frame_calls)
  show ?thesis
  proof (cases c)
    case (Frame f)
    with Inr r w1 show ?thesis by (simp add: write_json_async_def)
  next
    case (Json j)
    show ?thesis
    proof (cases "write_text L k (json_dumps L j n) w1")
      case (Inl e)
      with Inr r Json w1 show ?thesis by (simp add: write_json_async_def)
    next
      case (Inr w2)
      with write_text_frame_calls [OF Inr] \<open>open_write (json_path p) w = Inr r\<close> r Json w1
      show ?thesis by (simp add: write_json_async_def)
    qed
  qed
qed

lemma returning_frame_calls:
  "(\<And>w. frame_calls (snd (m w)) = frame_calls w) \<Longrightarrow>
   frame_calls (snd (returning f m w)) = frame_calls w"
proof -
  assume a: "\<And>w. frame_calls (snd (m w)) = frame_calls w"
  obtain r w1 where m: "m w = (r, w1)" by (cases "m w")
  with a [of w] have "frame_calls w1 = frame_calls w" by simp
  with m show ?thesis by (cases r) (simp_all add: returning_def)
qed

lemma makedirs_frame_calls [simp]: "frame_calls (snd (makedirs p w)) = frame_calls w"
proof (cases "p = []")
  case True
  then show ?thesis by (simp add: makedirs_def)
next
  case False
  obtain e t k where "mkwalk (refused w) (fs w) (start_dir w p) 0 (split_slash p) = (e, t, k)"
    by (cases "mkwalk (refused w) (fs w) (start_dir w p) 0 (split_slash p)")
  with False show ?thesis by (cases e) (simp_all add: makedirs_def)
qed

lemma run_all_frame_calls:
  "\<forall>t \<in> set tasks. \<forall>w. frame_calls (snd (t w)) = frame_calls w \<Longrightarrow>
   frame_calls (snd (run_all tasks w)) = frame_calls w"
proof (induction tasks arbitrary: w)
  case Nil
  then show ?case by simp
next
  case (Cons t ts)
  obtain r w1 where t: "t w = (r, w1)" by (cases "t w")
  obtain rs w2 where ts: "run_all ts w1 = (rs, w2)" by (cases "run_all ts w1")
  from Cons.prems t have "frame_calls w1 = frame_calls w" by (metis list.set_intros(1) snd_conv)
  moreover from Cons.IH [of w1] Cons.prems ts have "frame_calls w2 = frame_calls w1" by simp
  ultimately show ?case using t ts by simp
qed

lemma gather_frame_calls:
  "\<forall>t \<in> set tasks. \<forall>w. frame_calls (snd (t w)) = frame_calls w \<Longrightarrow>
   frame_calls (snd (gather tasks w)) = frame_calls w"
  using run_all_frame_calls [of tasks w]
  by (auto simp: gather_def split: prod.splits option.splits)

lemma read_tasks_frame_calls:
  "\<forall>t \<in> set (fst (read_tasks L path dtype files)). \<forall>w. frame_calls (snd (t w)) = frame_calls w"
  by (induction files) (auto simp: returning_frame_calls split: prod.splits)

lemma write_task_frame_calls:
  "frame_calls (snd (write_task L path dtype e w)) = frame_calls w"
  by (simp add: write_task_def Let_def)

lemma run_all_results:
  "\<forall>t \<in> set tasks. \<forall>w v. fst (t w) = Inr v \<longrightarrow> P v \<Longrightarrow>
   \<forall>v \<in> set (results_of (fst (run_all tasks w))). P v"
proof (induction tasks arbitrary: w)
  case Nil
  then show ?case by simp
next
  case (Cons t ts)
  obtain r w1 where t: "t w = (r, w1)" by (cases "t w")
  obtain rs w2 where ts: "run_all ts w1 = (rs, w2)" by (cases "run_all ts w1")
  from Cons.IH [of w1] Cons.prems ts have rest: "\<forall>v \<in> set (results_of rs). P v" by simp
  show ?case
  proof (cases r)
    case (Inl e)
    with t ts rest show ?thesis by simp
  next
    case (Inr v)
    with Cons.prems t have "P v" by (metis fst_conv list.set_intros(1))
    with Inr t ts rest show ?thesis by simp
  qed
qed

lemma fold_update_values:
  "snd ` set (fold (\<lambda>(k, v). AList.update k v) kvs acc) \<subseteq> snd ` set acc \<union> snd ` set kvs"
proof (induction kvs arbitrary: acc)
  case Nil
  then show ?case by simp
next
  case (Cons kv kvs)
  obtain k v where kv: "kv = (k, v)" by (cases kv)
  have "snd ` set (AList.update k v acc) \<subseteq> insert v (snd ` set acc)"
    by (induction acc) auto
  with Cons.IH [of "AList.update k v acc"] kv show ?case by auto
qed

lemma dict_of_values: "snd ` set (dict_of kvs) \<subseteq> snd ` set kvs"
  using fold_update_values [of kvs "[]"] by (simp add: dict_of_def)

lemma read_tasks_text:
  "dtype \<noteq> ''json'' \<Longrightarrow>
   \<forall>t \<in> set (fst (read_tasks L path dtype files)). \<forall>w v. fst (t w) = Inr v \<longrightarrow> (\<exists>s. v = Json (JStr s))"
  by (induction files) (auto simp: returning_def split: prod.splits sum.splits)

text \<open>Claim C5. With a tabular dtype tag (csv, xlsx or pickle) the async directory reader
  and writer never enter the dataframe library: the record of calls into it is unchanged
  by either, and every value the async reader returns is raw text, never a frame.\<close>

theorem async_dir_ops_skip_frame_codec:
  assumes "dtype \<in> set tabular"
  shows "frame_calls (snd (read_dir_contents_async L path dtype w)) = frame_calls w \<and>
         frame_calls (snd (write_contents_to_dir_async L path contents dtype w)) = frame_calls w \<and>
         (\<forall>d. fst (read_dir_contents_async L path dtype w) = Inr d \<longrightarrow>
              (\<forall>(ident, v) \<in> set d. \<exists>s. v = Json (JStr s)))"
proof (intro conjI allI impI)
  show "frame_calls (snd (read_dir_contents_async L path dtype w)) = frame_calls w"
  proof (cases "path_exists w path \<and> path_isdir w path")
    case False
    then show ?thesis by (auto simp: read_dir_contents_async_def gather_def)
  next
    case True
    show ?thesis
    proof (cases "listdir w path")
      case (Inl e)
      with True show ?thesis by (simp add: read_dir_contents_async_def)
    next
      case (Inr files)
      obtain tasks idents where rt: "read_tasks L path dtype files = (tasks, idents)"
        by (cases "read_tasks L path dtype files")
      from read_tasks_frame_calls [of L path dtype files] rt
      have "frame_calls (snd (gather tasks w)) = frame_calls w"
        by (intro gather_frame_calls) simp
      with True Inr rt show ?thesis
        by (auto simp: read_dir_contents_async_def split: prod.splits sum.splits)
    qed
  qed
next
  have g: "\<And>w1. frame_calls (snd (gather (map (write_task L path dtype) contents) w1)) = frame_calls w1"
    by (intro gather_frame_calls) (simp add: write_task_frame_calls)
  have m: "frame_calls (snd (makedirs path w)) = frame_calls w" by simp
  show "frame_calls (snd (write_contents_to_dir_async L path contents dtype w)) = frame_calls w"
  proof (cases "path_exists w path")
    case True
    with g [of w] show ?thesis
      by (auto simp: write_contents_to_dir_async_def split: prod.splits sum.splits)
  next
    case False
    obtain r w1 where mk: "makedirs path w = (r, w1)" by (cases "makedirs path w")
    with m have "frame_calls w1 = frame_calls w" by simp
    with False mk g [of w1] show ?thesis
      by (auto simp: write_contents_to_dir_async_def split: prod.splits sum.splits)
  qed
next
  fix d
  assume ok: "fst (read_dir_contents_async L path dtype w) = Inr d"
  from assms have nj: "dtype \<noteq> ''json''" by (auto simp: tabular_def)
  show "\<forall>(ident, v) \<in> set d. \<exists>s. v = Json (JStr s)"
  proof (cases "path_exists w path \<and> path_isdir w path")
    case False
    with ok show ?thesis by (auto simp: read_dir_contents_async_def gather_def dict_of_def)
  next
    case True
    show ?thesis
    proof (cases "listdir w path")
      case (Inl e)
      with True ok show ?thesis by (simp add: read_dir_contents_async_def)
    next
      case (Inr files)
      obtain tasks idents where rt: "read_tasks L path dtype files = (tasks, idents)"
        by (cases "read_tasks L path dtype files")
      obtain rs w1 where ra: "run_all tasks w = (rs, w1)" by (cases "run_all tasks w")
      from read_tasks_text [OF nj, of L path files] rt
      have "\<forall>t \<in> set tasks. \<forall>w v. fst (t w) = Inr v \<longrightarrow> (\<exists>s. v = Json (JStr s))" by simp
      from run_all_results [OF this, of w] ra
      have texts: "\<forall>v \<in> set (results_of rs). \<exists>s. v = Json (JStr s)" by simp
      from True Inr rt ra ok have d: "d = dict_of (zip idents (results_of rs))"
        by (auto simp: read_dir_contents_async_def gather_def split: option.splits)
      have "snd ` set (zip idents (results_of rs)) \<subseteq> set (results_of rs)"
        by (auto dest: set_zip_rightD)
      with dict_of_values [of "zip idents (results_of rs)"] d
      have "snd ` set d \<subseteq> set (results_of rs)" by blast
      with texts show ?thesis by force
    qed
  qed
qed

text \<open>The synchronous reader, on the same input, does enter the codec.\<close>

lemma sync_reader_enters_frame_codec:
  "frame_calls (snd (read_dir_contents toy ''d'' ''csv'' world_csv)) = [(''csv'', ''d/t.csv'')]"
  by code_simp

theorem async_dir_ops_skip_frame_codec_witness:
  "''csv'' \<in> set tabular \<and>
   frame_calls (snd (read_dir_contents_async toy ''d'' ''csv'' world_csv)) = [] \<and>
   frame_calls (snd (write_contents_to_dir_async toy ''d'' [(''u'', Frame ''1,2'')] ''csv'' world_csv)) = [] \<and>
   fst (read_dir_contents_async toy ''d'' ''csv'' world_csv) = Inr [(''t'', Json (JStr ''a,b''))]"
proof -
  have h: "''csv'' \<in> set tabular" by (simp add: tabular_def)
  have e: "fst (read_dir_contents_async toy ''d'' ''csv'' world_csv) = Inr [(''t'', Json (JStr ''a,b''))]"
    by code_simp
  have c: "frame_calls world_csv = []" by (simp add: world_csv_def)
  show ?thesis
    using async_dir_ops_skip_frame_codec [OF h, of toy "''d''" world_csv "[(''u'', Frame ''1,2'')]"] h e c
    by simp
qed

section \<open>Paths and the writers on a regular file\<close>

lemma split_slash_nonempty [simp]: "split_slash s \<noteq> []"
  by (induction s) (auto split: list.splits)

lemma split_slash_append:
  "split_slash (a @ CHR ''/'' # b) = split_slash a @ split_slash b"
  by (induction a) (auto split: list.splits)

lemma split_slash_snoc_slash: "split_slash (a @ ''/'') = split_slash a @ [[]]"
  using split_slash_append [of a "[]"] by simp

lemma walk_append:
  "walk t cur (xs @ ys) = (case walk t cur xs of Inl e \<Rightarrow> Inl e | Inr k \<Rightarrow> walk t k ys)"
  by (induction xs arbitrary: cur) (auto split: option.splits node.splits)

lemma walk_from_file:
  "lookup t k = Some (File d) \<Longrightarrow> cs \<noteq> [] \<Longrightarrow> walk t k cs = Inl NotADirectoryError"
  by (cases cs) auto

lemma endswith_slash: "endswith a ''/'' \<Longrightarrow> \<exists>b. a = b @ ''/''"
  by (metis append_take_drop_id endswith_def)


lemma walk_trailing_empty:
  "walk t cur (cs @ [[]]) = Inr k \<Longrightarrow> lookup t k = Some Dir"
  by (auto simp: walk_append split: sum.splits option.splits node.splits)

lemma startswith_slash: "startswith s ''/'' \<longleftrightarrow> (\<exists>r. s = CHR ''/'' # r)"
  by (cases s) (auto simp: startswith_def)

lemma start_dir_append [simp]: "p \<noteq> [] \<Longrightarrow> start_dir w (p @ q) = start_dir w p"
  by (cases p) (auto simp: start_dir_def startswith_def)

lemma path_error_None:
  "path_error p = None \<longleftrightarrow> CHR 0x00 \<notin> set p \<and> p \<noteq> [] \<and> utf8_length p < 4096"
  by (auto simp: path_error_def)

lemma resolve_Inr:
  "resolve w p = Inr k \<Longrightarrow>
   path_error p = None \<and> walk (fs w) (start_dir w p) (split_slash p) = Inr k"
  by (auto simp: resolve_def split: option.splits)

lemma resolve_walk:
  "path_error p = None \<Longrightarrow> resolve w p = walk (fs w) (start_dir w p) (split_slash p)"
  by (simp add: resolve_def)

lemma resolve_nonempty: "resolve w p = Inr k \<Longrightarrow> p \<noteq> []"
  using resolve_Inr [of w p k] by (auto simp: path_error_None)

lemma resolve_file_no_slash:
  assumes "resolve w p = Inr k" and "lookup (fs w) k = Some (File d)"
  shows "p \<noteq> [] \<and> \<not> endswith p ''/''"
proof
  from assms(1) show "p \<noteq> []" by (rule resolve_nonempty)
  show "\<not> endswith p ''/''"
  proof
    assume "endswith p ''/''"
    then obtain b where b: "p = b @ ''/''" using endswith_slash by blast
    with resolve_Inr [OF assms(1)]
    have "walk (fs w) (start_dir w p) (split_slash b @ [[]]) = Inr k"
      by (simp add: split_slash_snoc_slash)
    then have "lookup (fs w) k = Some Dir" by (rule walk_trailing_empty)
    with assms(2) show False by simp
  qed
qed

lemma resolve_below_file:
  assumes "resolve w p = Inr k" and "lookup (fs w) k = Some (File d)"
    and "\<not> startswith n ''/''"
  shows "\<exists>e. resolve w (path_join p n) = Inl e"
proof -
  from resolve_file_no_slash [OF assms(1,2)] have p: "p \<noteq> []" "\<not> endswith p ''/''" by auto
  with assms(3) have j: "path_join p n = p @ CHR ''/'' # n" by (simp add: path_join_def)
  from resolve_Inr [OF assms(1)] have wk: "walk (fs w) (start_dir w p) (split_slash p) = Inr k"
    by simp
  have "walk (fs w) (start_dir w p) (split_slash p @ split_slash n) = Inl NotADirectoryError"
    using wk walk_from_file [OF assms(2), of "split_slash n"] by (simp add: walk_append)
  with p have "walk (fs w) (start_dir w (p @ CHR ''/'' # n)) (split_slash (p @ CHR ''/'' # n)) =
      Inl NotADirectoryError"
    by (simp add: split_slash_append)
  then show ?thesis unfolding j by (cases "path_error (p @ CHR ''/'' # n)") (simp_all add: resolve_def)
qed

lemma open_write_below_file:
  assumes "resolve w p = Inr k" and "lookup (fs w) k = Some (File d)"
    and "\<not> startswith n ''/''"
  shows "\<exists>e. open_write (path_join p n) w = Inl e"
  using resolve_below_file [OF assms] by (auto simp: open_write_def)

lemma open_write_resolve_error:
  "resolve w fp = Inl e \<Longrightarrow> open_write fp w = Inl e"
  by (simp add: open_write_def)

lemma json_path_join:
  assumes "n \<noteq> []" and "\<not> startswith n ''/''"
  shows "\<exists>m. \<not> startswith m ''/'' \<and> json_path (path_join p n) = path_join p m"
proof (cases "endswith (path_join p n) ''.json''")
  case True
  with assms show ?thesis by (auto simp: json_path_def)
next
  case False
  from assms have "\<not> startswith (n @ ''.json'') ''/''"
    by (cases n) (auto simp: startswith_def)
  moreover from assms have "path_join p n @ ''.json'' = path_join p (n @ ''.json'')"
    by (cases n) (auto simp: path_join_def startswith_def)
  ultimately show ?thesis using False by (auto simp: json_path_def)
qed

lemma resolve_cong: "fs w' = fs w \<Longrightarrow> cwd w' = cwd w \<Longrightarrow> resolve w' p = resolve w p"
  by (simp add: resolve_def start_dir_def split: option.splits)

lemma ident_name_not_absolute:
  "\<not> startswith ident ''/'' \<Longrightarrow> \<not> startswith (ident @ ''.'' @ dtype) ''/''"
  by (cases ident) (auto simp: startswith_def)

lemma write_file_failing:
  "open_write fp w = Inl e \<Longrightarrow> write_file L fp content w = (Inr (), print (Error_Writing_File e) w)"
  by (simp add: write_file_def)

lemma write_json_failing:
  "open_write (json_path fp) w = Inl e \<Longrightarrow>
   write_json L fp content n w = (Inr (), print (Error_Writing_JSON e) w)"
  by (simp add: write_json_def)

lemma write_df_failing:
  assumes "\<And>w1. fs w1 = fs w \<Longrightarrow> cwd w1 = cwd w \<Longrightarrow> open_write fp w1 = Inl e"
  shows "\<exists>x w1. write_df L fp content dtype w = (Inr (), print x w1) \<and> fs w1 = fs w \<and>
           cwd w1 = cwd w \<and> out w1 = out w"
proof (cases "dtype = ''csv'' \<or> dtype = ''pickle'' \<or> dtype = ''xlsx''")
  case False
  then have "write_df L fp content dtype w = (Inr (), print (Error_Writing_CSV ValueError) w)"
    by (simp add: write_df_def)
  then show ?thesis by blast
next
  case True
  show ?thesis
  proof (cases content)
    case (Json j)
    with True have "write_df L fp content dtype w = (Inr (), print (Error_Writing_CSV AttributeError) w)"
      by (simp add: write_df_def)
    then show ?thesis by blast
  next
    case (Frame f)
    let ?w1 = "called dtype fp w"
    have "open_write fp ?w1 = Inl e" by (rule assms) (simp_all add: called_def)
    with True Frame have "write_df L fp content dtype w = (Inr (), print (Error_Writing_CSV e) ?w1)"
      by (simp add: write_df_def Let_def)
    moreover have "fs ?w1 = fs w \<and> cwd ?w1 = cwd w \<and> out ?w1 = out w" by (simp add: called_def)
    ultimately show ?thesis by blast
  qed
qed

lemma write_entry_below_file:
  assumes "resolve w p = Inr k" and "lookup (fs w) k = Some (File d)"
    and "\<not> startswith ident ''/''"
  shows "\<exists>x w1. write_entry L p dtype ident content w = (Inr (), print x w1) \<and> fs w1 = fs w \<and>
           cwd w1 = cwd w \<and> out w1 = out w"
proof -
  let ?n = "ident @ ''.'' @ dtype"
  let ?fp = "path_join p ?n"
  have n: "?n \<noteq> []" "\<not> startswith ?n ''/''"
    using assms(3) ident_name_not_absolute by auto
  from json_path_join [OF n, of p] obtain m where
    m: "\<not> startswith m ''/''" "json_path ?fp = path_join p m" by blast
  from resolve_below_file [OF assms(1,2) n(2)] obtain e where e: "resolve w ?fp = Inl e" by blast
  have a: "open_write ?fp w1 = Inl e" if "fs w1 = fs w" "cwd w1 = cwd w" for w1
  proof -
    from that e resolve_cong [of w1 w ?fp] have "resolve w1 ?fp = Inl e" by simp
    then show ?thesis by (rule open_write_resolve_error)
  qed
  from open_write_below_file [OF assms(1,2) m(1)] m(2) obtain e' where
    b: "open_write (json_path ?fp) w = Inl e'" by auto
  consider "dtype = ''json''" | "dtype \<noteq> ''json''" "dtype \<in> set tabular"
    | "dtype \<noteq> ''json''" "dtype \<notin> set tabular" by blast
  then show ?thesis
  proof cases
    case 1
    then have "write_entry L p dtype ident content w = (Inr (), print (Error_Writing_JSON e') w)"
      using write_json_failing [OF b] by (simp add: write_entry_def Let_def)
    then show ?thesis by blast
  next
    case 2
    then have "write_entry L p dtype ident content w = write_df L ?fp content dtype w"
      by (simp add: write_entry_def Let_def)
    with write_df_failing [of w ?fp e L content dtype] a show ?thesis by simp
  next
    case 3
    then have "write_entry L p dtype ident content w = (Inr (), print (Error_Writing_File e) w)"
      using write_file_failing [OF a [of w]] by (simp add: write_entry_def Let_def)
    then show ?thesis by blast
  qed
qed


lemma write_task_below_file:
  assumes "resolve w p = Inr k" and "lookup (fs w) k = Some (File d)"
    and "\<not> startswith (fst entry) ''/''"
  shows "\<exists>x. write_task L p dtype entry w = (Inr (), print x w)"
proof -
  let ?n = "fst entry @ ''.'' @ dtype"
  let ?fp = "path_join p ?n"
  have n: "?n \<noteq> []" "\<not> startswith ?n ''/''"
    using assms(3) ident_name_not_absolute by auto
  from json_path_join [OF n, of p] obtain m where
    m: "\<not> startswith m ''/''" "json_path ?fp = path_join p m" by blast
  from open_write_below_file [OF assms(1,2) n(2)] obtain e where
    a: "open_write ?fp w = Inl e" by blast
  from open_write_below_file [OF assms(1,2) m(1)] m(2) obtain e' where
    b: "open_write (json_path ?fp) w = Inl e'" by auto
  show ?thesis
  proof (cases "dtype = ''json''")
    case True
    with b have "write_task L p dtype entry w = (Inr (), print (Error_Writing_JSON e') w)"
      by (simp add: write_task_def Let_def write_json_async_def)
    then show ?thesis by blast
  next
    case False
    with a have "write_task L p dtype entry w = (Inr (), print (Error_Writing_File e) w)"
      by (simp add: write_task_def Let_def write_file_async_def)
    then show ?thesis by blast
  qed
qed

lemma print_fields [simp]:
  "fs (print x w) = fs w" "cwd (print x w) = cwd w" "out (print x w) = out w @ [x]"
  by (simp_all add: print_def)

lemma write_loop_below_file:
  assumes "resolve w p = Inr k" and "lookup (fs w) k = Some (File d)"
    and "\<forall>(ident, content) \<in> set contents. \<not> startswith ident ''/''"
  shows "\<exists>w'. write_loop L p dtype contents w = (Inr (), w') \<and> fs w' = fs w \<and> cwd w' = cwd w \<and>
           length (out w') = length (out w) + length contents"
  using assms
proof (induction contents arbitrary: w)
  case Nil
  then show ?case by simp
next
  case (Cons entry rest)
  obtain ident content where entry: "entry = (ident, content)" by (cases entry)
  with Cons.prems(3) have na: "\<not> startswith ident ''/''" by simp
  from write_entry_below_file [OF Cons.prems(1,2) na, of L dtype content]
  obtain x w1 where w1: "write_entry L p dtype ident content w = (Inr (), print x w1)"
    "fs w1 = fs w" "cwd w1 = cwd w" "out w1 = out w" by blast
  let ?w2 = "print x w1"
  have r: "resolve ?w2 p = Inr k"
    using resolve_cong [of ?w2 w p] w1 Cons.prems(1) by simp
  have l: "lookup (fs ?w2) k = Some (File d)" using w1 Cons.prems(2) by simp
  have rest: "\<forall>(ident, content) \<in> set rest. \<not> startswith ident ''/''"
    using Cons.prems(3) by simp
  from Cons.IH [OF r l rest] obtain w' where
    w': "write_loop L p dtype rest ?w2 = (Inr (), w')" "fs w' = fs ?w2" "cwd w' = cwd ?w2"
      "length (out w') = length (out ?w2) + length rest" by blast
  have "write_loop L p dtype (entry # rest) w = (Inr (), w')"
    using entry w1(1) w'(1) by simp
  moreover have "fs w' = fs w" "cwd w' = cwd w" using w' w1 by simp_all
  moreover have "length (out w') = length (out w) + length (entry # rest)"
    using w' w1 by simp
  ultimately show ?case by blast
qed

lemma run_all_below_file:
  assumes "resolve w p = Inr k" and "lookup (fs w) k = Some (File d)"
    and "\<forall>(ident, content) \<in> set contents. \<not> startswith ident ''/''"
  shows "\<exists>w'. run_all (map (write_task L p dtype) contents) w = (map (\<lambda>e. Inr ()) contents, w') \<and>
           fs w' = fs w \<and> cwd w' = cwd w \<and> length (out w') = length (out w) + length contents"
  using assms
proof (induction contents arbitrary: w)
  case Nil
  then show ?case by simp
next
  case (Cons entry rest)
  from Cons.prems(3) have na: "\<not> startswith (fst entry) ''/''" by (cases entry) simp
  from write_task_below_file [OF Cons.prems(1,2) na, of L dtype]
  obtain x where x: "write_task L p dtype entry w = (Inr (), print x w)" by blast
  let ?w2 = "print x w"
  have r: "resolve ?w2 p = Inr k"
    using resolve_cong [of ?w2 w p] Cons.prems(1) by simp
  have l: "lookup (fs ?w2) k = Some (File d)" using Cons.prems(2) by simp
  have rest: "\<forall>(ident, content) \<in> set rest. \<not> startswith ident ''/''"
    using Cons.prems(3) by simp
  from Cons.IH [OF r l rest] obtain w' where
    w': "run_all (map (write_task L p dtype) rest) ?w2 = (map (\<lambda>e. Inr ()) rest, w')"
      "fs w' = fs ?w2" "cwd w' = cwd ?w2"
      "length (out w') = length (out ?w2) + length rest" by blast
  have "run_all (map (write_task L p dtype) (entry # rest)) w = (map (\<lambda>e. Inr ()) (entry # rest), w')"
    using x w'(1) by simp
  moreover have "fs w' = fs w" "cwd w' = cwd w" using w' by simp_all
  moreover have "length (out w') = length (out w) + length (entry # rest)"
    using w' by simp
  ultimately show ?case by blast
qed

lemma first_exn_all_values [simp]: "first_exn (map (\<lambda>e. Inr v) xs) = None"
  by (induction xs) simp_all

lemma path_isfile_exists: "path_isfile w p \<Longrightarrow> path_exists w p"
  by (auto simp: path_isfile_def path_exists_def split: sum.splits option.splits node.splits)

text \<open>Claim C10, amended. When the path names an existing regular file and no identifier is
  an absolute path, both directory writers skip the directory creation (the path exists),
  raise nothing and write no entry: every per-entry write fails below the regular file and
  is swallowed, leaving one diagnostic per entry and the filesystem as it was.\<close>

theorem write_dir_onto_regular_file:
  assumes "path_isfile w path"
    and "\<forall>(ident, content) \<in> set contents. \<not> startswith ident ''/''"
  shows "(\<exists>w'. write_contents_to_dir L path contents dtype w = (Inr (), w') \<and> fs w' = fs w \<and>
            length (out w') = length (out w) + length contents) \<and>
         (\<exists>w'. write_contents_to_dir_async L path contents dtype w = (Inr (), w') \<and> fs w' = fs w \<and>
            length (out w') = length (out w) + length contents)"
proof -
  from assms(1) obtain k d where k: "resolve w path = Inr k" "lookup (fs w) k = Some (File d)"
    by (auto simp: path_isfile_def split: sum.splits option.splits node.splits)
  from assms(1) have ex: "path_exists w path" by (rule path_isfile_exists)
  from write_loop_below_file [OF k assms(2), of L dtype] ex
  have sync: "\<exists>w'. write_contents_to_dir L path contents dtype w = (Inr (), w') \<and> fs w' = fs w \<and>
            length (out w') = length (out w) + length contents"
    by (auto simp: write_contents_to_dir_def)
  from run_all_below_file [OF k assms(2), of L dtype] obtain w' where
    w': "run_all (map (write_task L path dtype) contents) w = (map (\<lambda>e. Inr ()) contents, w')"
      "fs w' = fs w" "length (out w') = length (out w) + length contents" by blast
  have "write_contents_to_dir_async L path contents dtype w = (Inr (), w')"
    using ex w'(1) by (simp add: write_contents_to_dir_async_def gather_def)
  with w'(2,3) sync show ?thesis by blast
qed

theorem write_dir_onto_regular_file_witness:
  "path_isfile world0 ''f'' \<and>
   write_contents_to_dir toy ''f'' entries_ab ''json'' world0 =
     (Inr (), world0\<lparr>out := [Error_Writing_JSON NotADirectoryError, Error_Writing_JSON NotADirectoryError]\<rparr>) \<and>
   (\<exists>w'. write_contents_to_dir_async toy ''f'' entries_ab ''txt'' world0 = (Inr (), w') \<and>
      fs w' = fs world0 \<and> length (out w') = length (out world0) + length entries_ab)"
proof -
  have h: "path_isfile world0 ''f''" by code_simp
  have n: "\<forall>(ident, content) \<in> set entries_ab. \<not> startswith ident ''/''" by code_simp
  have e: "write_contents_to_dir toy ''f'' entries_ab ''json'' world0 =
     (Inr (), world0\<lparr>out := [Error_Writing_JSON NotADirectoryError, Error_Writing_JSON NotADirectoryError]\<rparr>)"
    by code_simp
  show ?thesis
    using write_dir_onto_regular_file [OF h n, of toy "''txt''"] h e by blast
qed

text \<open>Claim C10 as stated fails for an identifier that is an absolute path: \<open>os.path.join\<close>
  then drops the directory, and the entry is written where the identifier says.\<close>

theorem absolute_identifier_is_written_elsewhere:
  "path_isfile world0 ''f'' \<and>
   write_contents_to_dir toy ''f'' [(''/g'', Json (JStr ''x''))] ''txt'' world0 =
     (Inr (), world0\<lparr>fs := fs world0 @ [([''g.txt''], File ''x'')]\<rparr>)"
  by code_simp

section \<open>Directory creation by the writers\<close>

lemma lookup_update:
  "k \<noteq> [] \<Longrightarrow> lookup (AList.update k v t) x = (if x = k then Some v else lookup t x)"
  by (simp add: lookup_def update_conv')

lemma mkwalk_grows:
  "mkwalk r t cur pos cs = (e, t', k) \<Longrightarrow>
   lookup t' x = lookup t x \<or> (lookup t x = None \<and> lookup t' x = Some Dir)"
proof (induction cs arbitrary: t cur pos)
  case Nil
  then show ?case by simp
next
  case (Cons c cs)
  show ?case
  proof (cases "lookup t cur = Some Dir \<and> CHR 0x00 \<notin> set c \<and> \<not> 4096 \<le> pos + utf8_length c \<and>
      c \<noteq> [] \<and> c \<noteq> ''.'' \<and> c \<noteq> ''..'' \<and> \<not> 255 < utf8_length c \<and>
      lookup t (cur @ [c]) = None \<and> map_of r (Creating, cur @ [c]) = None")
    case True
    let ?t1 = "AList.update (cur @ [c]) Dir t"
    from True Cons.prems
    have "mkwalk r ?t1 (cur @ [c]) (pos + utf8_length c + 1) cs = (e, t', k)" by simp
    from Cons.IH [OF this]
    have "lookup t' x = lookup ?t1 x \<or> (lookup ?t1 x = None \<and> lookup t' x = Some Dir)" .
    moreover have "lookup ?t1 x = (if x = cur @ [c] then Some Dir else lookup t x)"
      by (simp add: lookup_update)
    ultimately show ?thesis using True by (auto split: if_splits)
  next
    case False
    with Cons.prems Cons.IH show ?thesis
      by (auto split: option.splits node.splits if_splits)
  qed
qed

lemma mkwalk_keeps:
  "mkwalk r t cur pos cs = (e, t', k) \<Longrightarrow> lookup t x = Some n \<Longrightarrow> lookup t' x = Some n"
  using mkwalk_grows [of r t cur pos cs e t' k x] by auto

lemma mkwalk_end_exists:
  "mkwalk r t cur pos cs = (None, t', k) \<Longrightarrow> lookup t cur \<noteq> None \<Longrightarrow> lookup t' k \<noteq> None"
proof (induction cs arbitrary: t cur pos)
  case Nil
  then show ?case by simp
next
  case (Cons c cs)
  show ?case
  proof (cases "lookup t cur = Some Dir \<and> CHR 0x00 \<notin> set c \<and> \<not> 4096 \<le> pos + utf8_length c \<and>
      c \<noteq> [] \<and> c \<noteq> ''.'' \<and> c \<noteq> ''..'' \<and> \<not> 255 < utf8_length c \<and>
      lookup t (cur @ [c]) = None \<and> map_of r (Creating, cur @ [c]) = None")
    case True
    let ?t1 = "AList.update (cur @ [c]) Dir t"
    from True Cons.prems
    have "mkwalk r ?t1 (cur @ [c]) (pos + utf8_length c + 1) cs = (None, t', k)" by simp
    moreover have "lookup ?t1 (cur @ [c]) \<noteq> None" by (simp add: lookup_update)
    ultimately show ?thesis by (rule Cons.IH)
  next
    case False
    with Cons.prems Cons.IH show ?thesis
      by (auto split: option.splits node.splits if_splits)
  qed
qed

lemma mkwalk_walk:
  "mkwalk r t cur pos cs = (None, t', k) \<Longrightarrow> walk t' cur cs = Inr k"
proof (induction cs arbitrary: t cur pos)
  case Nil
  then show ?case by simp
next
  case (Cons c cs)
  from Cons.prems have d: "lookup t cur = Some Dir"
    by (auto split: option.splits node.splits)
  from mkwalk_keeps [OF Cons.prems d] have d': "lookup t' cur = Some Dir" .
  from Cons.prems d have ok: "CHR 0x00 \<notin> set c" "\<not> 4096 \<le> pos + utf8_length c"
    by (auto split: if_splits)
  let ?pos = "pos + utf8_length c + 1"
  show ?case
  proof (cases "c = [] \<or> c = ''.''")
    case True
    with Cons.prems d ok have "mkwalk r t cur ?pos cs = (None, t', k)" by auto
    from Cons.IH [OF this] True d' show ?thesis by auto
  next
    case False
    note nd = this
    show ?thesis
    proof (cases "c = ''..''")
      case True
      with Cons.prems d ok have p: "lookup t (butlast cur) = Some Dir"
        and m: "mkwalk r t (butlast cur) ?pos cs = (None, t', k)"
        by (auto split: if_splits)
      from mkwalk_keeps [OF Cons.prems p] have "lookup t' (butlast cur) = Some Dir" .
      with Cons.IH [OF m] True d' show ?thesis by simp
    next
      case False
      from Cons.prems d ok nd False have len: "\<not> 255 < utf8_length c"
        by (auto split: if_splits)
      show ?thesis
      proof (cases "lookup t (cur @ [c])")
        case None
        with Cons.prems d ok nd False len
        have "mkwalk r (AList.update (cur @ [c]) Dir t) (cur @ [c]) ?pos cs = (None, t', k)"
          by (auto split: option.splits)
        from Cons.IH [OF this] nd False len d' show ?thesis by simp
      next
        case (Some n)
        with Cons.prems d ok nd False len have "mkwalk r t (cur @ [c]) ?pos cs = (None, t', k)"
          by simp
        from Cons.IH [OF this] nd False len d' show ?thesis by simp
      qed
    qed
  qed
qed

lemma utf8_length_append [simp]: "utf8_length (a @ b) = utf8_length a + utf8_length b"
  by (simp add: utf8_length_def)

lemma utf8_length_Nil [simp]: "utf8_length [] = 0"
  by (simp add: utf8_length_def)

lemma utf8_length_slash [simp]: "utf8_length (CHR ''/'' # s) = Suc (utf8_length s)"
  by (simp add: utf8_length_def)

lemma utf8_length_split:
  "utf8_length p = utf8_length (concat (split_slash p)) + (length (split_slash p) - 1)"
proof (induction p)
  case Nil
  then show ?case by simp
next
  case (Cons c p)
  obtain x xs where x: "split_slash p = x # xs" by (cases "split_slash p") simp_all
  show ?case
  proof (cases "c = CHR ''/''")
    case True
    with Cons x show ?thesis by simp
  next
    case False
    have "utf8_length (c # p) = utf8_length [c] + utf8_length p"
      using utf8_length_append [of "[c]" p] by simp
    moreover have "utf8_length (c # x @ concat xs) = utf8_length [c] + utf8_length (x @ concat xs)"
      using utf8_length_append [of "[c]" "x @ concat xs"] by simp
    ultimately show ?thesis using False Cons x by simp
  qed
qed

lemma nul_split: "CHR 0x00 \<in> set p \<longleftrightarrow> CHR 0x00 \<in> \<Union> (set ` set (split_slash p))"
proof (induction p)
  case Nil
  then show ?case by simp
next
  case (Cons c p)
  obtain x xs where x: "split_slash p = x # xs" by (cases "split_slash p") simp_all
  with Cons show ?case by (cases "c = CHR ''/''") auto
qed

lemma mkwalk_clean:
  "mkwalk r t cur pos cs = (None, t', k) \<Longrightarrow>
   CHR 0x00 \<notin> \<Union> (set ` set cs) \<and>
   (cs \<noteq> [] \<longrightarrow> pos + utf8_length (concat cs) + (length cs - 1) < 4096)"
proof (induction cs arbitrary: t cur pos)
  case Nil
  then show ?case by simp
next
  case (Cons c cs)
  from Cons.prems have d: "lookup t cur = Some Dir"
    by (auto split: option.splits node.splits)
  from Cons.prems d have ok: "CHR 0x00 \<notin> set c" "pos + utf8_length c < 4096"
    by (auto split: if_splits)
  from Cons.prems d ok obtain t1 cur1 where
    m: "mkwalk r t1 cur1 (pos + utf8_length c + 1) cs = (None, t', k)"
    by (auto split: if_splits option.splits)
  from Cons.IH [OF m] have nul: "CHR 0x00 \<notin> \<Union> (set ` set cs)"
    and len: "cs \<noteq> [] \<longrightarrow> pos + utf8_length c + 1 + utf8_length (concat cs) + (length cs - 1) < 4096"
    by auto
  show ?case
  proof (cases "cs = []")
    case True
    with ok show ?thesis by simp
  next
    case False
    then have "length cs - 1 + 1 = length cs" by (cases cs) simp_all
    with len False ok nul show ?thesis by auto
  qed
qed

lemma makedirs_world:
  "makedirs p w = (r, w1) \<Longrightarrow>
   cwd w1 = cwd w \<and> out w1 = out w \<and>
   (\<forall>x. lookup (fs w1) x = lookup (fs w) x \<or> (lookup (fs w) x = None \<and> lookup (fs w1) x = Some Dir))"
proof -
  assume a: "makedirs p w = (r, w1)"
  show ?thesis
  proof (cases "p = []")
    case True
    with a show ?thesis by (auto simp: makedirs_def)
  next
    case False
    obtain e t k where m: "mkwalk (refused w) (fs w) (start_dir w p) 0 (split_slash p) = (e, t, k)"
      by (cases "mkwalk (refused w) (fs w) (start_dir w p) 0 (split_slash p)")
    with a False have "w1 = w\<lparr>fs := t\<rparr>"
      by (auto simp: makedirs_def split: option.splits if_splits)
    with mkwalk_grows [OF m] show ?thesis by auto
  qed
qed

lemma makedirs_creates:
  assumes "makedirs p w = (Inr u, w1)"
  shows "path_isdir w1 p"
proof -
  from assms have p: "p \<noteq> []" by (auto simp: makedirs_def)
  obtain e t k where m: "mkwalk (refused w) (fs w) (start_dir w p) 0 (split_slash p) = (e, t, k)"
    by (cases "mkwalk (refused w) (fs w) (start_dir w p) 0 (split_slash p)")
  with assms p have e: "e = None" and k: "lookup (fs w) k = None" and w1: "w1 = w\<lparr>fs := t\<rparr>"
    by (auto simp: makedirs_def split: option.splits if_splits)
  obtain c cs where cs: "split_slash p = c # cs"
    by (cases "split_slash p") simp_all
  from m e cs have d: "lookup (fs w) (start_dir w p) \<noteq> None"
    by (auto split: option.splits)
  from mkwalk_end_exists [OF m [unfolded e] d] have "lookup t k \<noteq> None" .
  with mkwalk_grows [OF m, of k] k have dir: "lookup t k = Some Dir" by auto
  from mkwalk_walk [OF m [unfolded e]] have wk: "walk t (start_dir w p) (split_slash p) = Inr k" .
  from mkwalk_clean [OF m [unfolded e]] cs
  have "CHR 0x00 \<notin> set p" and "utf8_length p < 4096"
    using nul_split [of p] utf8_length_split [of p] by simp_all
  with p have "path_error p = None" by (simp add: path_error_None)
  with wk w1 have "resolve w1 p = Inr k"
    by (auto simp: resolve_def start_dir_def split: if_splits)
  with dir w1 show ?thesis by (simp add: path_isdir_def)
qed

text \<open>Claim C9, amended. When the target path does not exist, both directory writers
  first try to create it. If the creation succeeds, the path is a directory (the missing
  parents are created with it) in the world every entry is then written in. If the creation
  raises (a component of the path is a regular file, or the path is empty), the error
  reaches the caller, nothing is printed and no file is written or changed.\<close>

theorem write_dir_creates_directory_first:
  assumes "\<not> path_exists w path"
  shows "(\<forall>e w1. makedirs path w = (Inl e, w1) \<longrightarrow>
            write_contents_to_dir L path contents dtype w = (Inl e, w1) \<and>
            write_contents_to_dir_async L path contents dtype w = (Inl e, w1) \<and>
            out w1 = out w \<and>
            (\<forall>x d. lookup (fs w1) x = Some (File d) \<longleftrightarrow> lookup (fs w) x = Some (File d))) \<and>
         (\<forall>w1. makedirs path w = (Inr (), w1) \<longrightarrow>
            path_isdir w1 path \<and>
            write_contents_to_dir L path contents dtype w = write_loop L path dtype contents w1 \<and>
            write_contents_to_dir_async L path contents dtype w =
              write_contents_to_dir_async L path contents dtype w1)"
proof (intro conjI allI impI)
  fix e w1
  assume m: "makedirs path w = (Inl e, w1)"
  with assms show "write_contents_to_dir L path contents dtype w = (Inl e, w1)"
    by (simp add: write_contents_to_dir_def)
  from m assms show "write_contents_to_dir_async L path contents dtype w = (Inl e, w1)"
    by (simp add: write_contents_to_dir_async_def)
  from makedirs_world [OF m] show "out w1 = out w" by simp
  fix x d
  from makedirs_world [OF m]
  have "lookup (fs w1) x = lookup (fs w) x \<or> (lookup (fs w) x = None \<and> lookup (fs w1) x = Some Dir)"
    by blast
  then show "lookup (fs w1) x = Some (File d) \<longleftrightarrow> lookup (fs w) x = Some (File d)" by auto
next
  fix w1
  assume m: "makedirs path w = (Inr (), w1)"
  from makedirs_creates [OF m] show d: "path_isdir w1 path" .
  from m assms show "write_contents_to_dir L path contents dtype w = write_loop L path dtype contents w1"
    by (simp add: write_contents_to_dir_def)
  from d have ex: "path_exists w1 path"
    by (auto simp: path_isdir_def path_exists_def split: sum.splits)
  from m assms ex show "write_contents_to_dir_async L path contents dtype w =
              write_contents_to_dir_async L path contents dtype w1"
    by (simp add: write_contents_to_dir_async_def)
qed

theorem write_dir_creates_directory_first_witness:
  "\<not> path_exists world0 ''d/x/y'' \<and>
   path_isdir (snd (makedirs ''d/x/y'' world0)) ''d/x/y'' \<and>
   write_contents_to_dir toy ''d/x/y'' entries_ab ''json'' world0 =
     write_loop toy ''d/x/y'' ''json'' entries_ab (snd (makedirs ''d/x/y'' world0))"
proof -
  have h: "\<not> path_exists world0 ''d/x/y''" by code_simp
  have "fst (makedirs ''d/x/y'' world0) = Inr ()" by code_simp
  then have m: "makedirs ''d/x/y'' world0 = (Inr (), snd (makedirs ''d/x/y'' world0))"
    by (simp add: prod_eq_iff)
  from write_dir_creates_directory_first [OF h, of toy entries_ab "''json''"] m
  have "path_isdir (snd (makedirs ''d/x/y'' world0)) ''d/x/y'' \<and>
        write_contents_to_dir toy ''d/x/y'' entries_ab ''json'' world0 =
          write_loop toy ''d/x/y'' ''json'' entries_ab (snd (makedirs ''d/x/y'' world0))"
    by blast
  with h show ?thesis by simp
qed

text \<open>Claim C9 as stated fails where the directory cannot be created: \<open>f/sub\<close> does not
  exist, \<open>f\<close> being a regular file; the writer raises and \<open>f/sub\<close> is no directory
  afterwards.\<close>

theorem write_dir_below_file_creates_nothing:
  "\<not> path_exists world0 ''f/sub'' \<and>
   write_contents_to_dir toy ''f/sub'' entries_ab ''json'' world0 = (Inl NotADirectoryError, world0) \<and>
   \<not> path_isdir (snd (write_contents_to_dir toy ''f/sub'' entries_ab ''json'' world0)) ''f/sub''"
  by code_simp

section \<open>Which failures are caught\<close>

lemma open_write_Inr: "open_write p w = Inr (k, w1) \<Longrightarrow> w1 = put k [] w"
  by (auto simp: open_write_def truncate_def split: sum.splits option.splits node.splits)

lemma store_Inr: "store k b w = Inr w1 \<Longrightarrow> w1 = put k b w"
  by (auto simp: store_def split: option.splits)

lemma write_text_Inr: "write_text L k s w = Inr w1 \<Longrightarrow> \<exists>b. w1 = put k b w"
  by (auto simp: write_text_def dest: store_Inr split: option.splits)

lemma read_file_outcome:
  "(\<exists>s. read_file L path w = (Inr s, w)) \<or> (\<exists>d. read_file L path w = (Inr [], print d w))"
  by (cases "read_text L w path") (auto simp: read_file_def)

lemma read_file_async_outcome:
  "(\<exists>s. read_file_async L path w = (Inr s, w)) \<or>
   (\<exists>d. read_file_async L path w = (Inr [], print d w))"
  by (cases "read_text L w path") (auto simp: read_file_async_def)

lemma df_failed_outcome: "\<exists>d. df_failed L path e w = (Inr (empty_frame L), print d w)"
  by (cases "e = FileNotFoundError") (auto simp: df_failed_def)

lemma read_df_outcome:
  "(\<exists>f. read_df L path dtype w = (Inr f, called dtype path w)) \<or>
   (\<exists>d. read_df L path dtype w = (Inr (empty_frame L), print d w)) \<or>
   (\<exists>d. read_df L path dtype w = (Inr (empty_frame L), print d (called dtype path w)))"
proof (cases "dtype = ''csv'' \<or> dtype = ''pickle'' \<or> dtype = ''xlsx''")
  case False
  with df_failed_outcome [of L path ValueError w] show ?thesis by (simp add: read_df_def)
next
  case True
  let ?w1 = "called dtype path w"
  show ?thesis
  proof (cases "open_read w path")
    case (Inl e)
    with True df_failed_outcome [of L path e ?w1] show ?thesis by (simp add: read_df_def Let_def)
  next
    case (Inr b)
    show ?thesis
    proof (cases "frame_decode L dtype b")
      case (Inl e)
      with True Inr df_failed_outcome [of L path e ?w1] show ?thesis
        by (simp add: read_df_def Let_def)
    next
      case (Inr f)
      with True \<open>open_read w path = Inr b\<close> show ?thesis by (simp add: read_df_def Let_def)
    qed
  qed
qed

lemma write_file_outcome: "write_outcome w (write_file L path c w)"
proof (cases "open_write path w")
  case (Inl e)
  then show ?thesis by (auto simp: write_outcome_def write_file_def)
next
  case (Inr r)
  obtain k w1 where r: "r = (k, w1)" by (cases r)
  with Inr have w1: "w1 = put k [] w" by (auto dest: open_write_Inr)
  show ?thesis
  proof (cases "\<exists>s. c = Json (JStr s)")
    case False
    with Inr r have "write_file L path c w = (Inr (), print (Error_Writing_File TypeError) w1)"
      by (auto simp: write_file_def split: content.splits json.splits)
    with w1 show ?thesis by (auto simp: write_outcome_def)
  next
    case True
    then obtain s where s: "c = Json (JStr s)" by blast
    show ?thesis
    proof (cases "write_text L k s w1")
      case (Inl e)
      with \<open>open_write path w = Inr r\<close> r s
      have "write_file L path c w = (Inr (), print (Error_Writing_File e) w1)"
        by (simp add: write_file_def)
      with w1 show ?thesis by (auto simp: write_outcome_def)
    next
      case (Inr w2)
      with \<open>open_write path w = Inr r\<close> r s have "write_file L path c w = (Inr (), w2)"
        by (simp add: write_file_def)
      with write_text_Inr [OF Inr] w1 show ?thesis by (auto simp: write_outcome_def)
    qed
  qed
qed

lemma write_file_async_is_write_file: "write_file_async L path c w = write_file L path c w"
  by (simp add: write_file_async_def write_file_def)

lemma write_json_outcome: "write_outcome w (write_json L path c n w)"
proof (cases "open_write (json_path path) w")
  case (Inl e)
  then show ?thesis by (auto simp: write_outcome_def write_json_def)
next
  case (Inr r)
  obtain k w1 where r: "r = (k, w1)" by (cases r)
  with Inr have w1: "w1 = put k [] w" by (auto dest: open_write_Inr)
  show ?thesis
  proof (cases c)
    case (Frame f)
    with Inr r have "write_json L path c n w = (Inr (), print (Error_Writing_JSON TypeError) w1)"
      by (simp add: write_json_def)
    with w1 show ?thesis by (auto simp: write_outcome_def)
  next
    case (Json j)
    show ?thesis
    proof (cases "write_text L k (json_dumps L j n) w1")
      case (Inl e)
      with \<open>open_write (json_path path) w = Inr r\<close> r Json
      have "write_json L path c n w = (Inr (), print (Error_Writing_JSON e) w1)"
        by (simp add: write_json_def)
      with w1 show ?thesis by (auto simp: write_outcome_def)
    next
      case (Inr w2)
      with \<open>open_write (json_path path) w = Inr r\<close> r Json
      have "write_json L path c n w = (Inr (), w2)" by (simp add: write_json_def)
      with write_text_Inr [OF Inr] w1 show ?thesis by (auto simp: write_outcome_def)
    qed
  qed
qed

lemma write_json_async_is_write_json: "write_json_async L path c n w = write_json L path c n w"
  by (simp add: write_json_async_def write_json_def)

lemma write_df_outcome:
  "write_outcome w (write_df L path c dtype w) \<or>
   write_outcome (called dtype path w) (write_df L path c dtype w)"
proof (cases "dtype = ''csv'' \<or> dtype = ''pickle'' \<or> dtype = ''xlsx''")
  case False
  then show ?thesis by (auto simp: write_outcome_def write_df_def)
next
  case True
  show ?thesis
  proof (cases c)
    case (Json j)
    with True show ?thesis by (auto simp: write_outcome_def write_df_def)
  next
    case (Frame f)
    let ?w1 = "called dtype path w"
    have "write_outcome ?w1 (write_df L path c dtype w)"
    proof (cases "open_write path ?w1")
      case (Inl e)
      with True Frame show ?thesis by (auto simp: write_outcome_def write_df_def Let_def)
    next
      case (Inr r)
      obtain k w2 where r: "r = (k, w2)" by (cases r)
      with Inr have w2: "w2 = put k [] ?w1" by (auto dest: open_write_Inr)
      show ?thesis
      proof (cases "frame_encode L dtype f")
        case (Inl e)
        with True Frame \<open>open_write path ?w1 = Inr r\<close> r
        have "write_df L path c dtype w = (Inr (), print (Error_Writing_CSV e) w2)"
          by (simp add: write_df_def Let_def)
        with w2 show ?thesis by (auto simp: write_outcome_def)
      next
        case (Inr b)
        show ?thesis
        proof (cases "store k b w2")
          case (Inl e)
          with True Frame \<open>open_write path ?w1 = Inr r\<close> r \<open>frame_encode L dtype f = Inr b\<close>
          have "write_df L path c dtype w = (Inr (), print (Error_Writing_CSV e) w2)"
            by (simp add: write_df_def Let_def)
          with w2 show ?thesis by (auto simp: write_outcome_def)
        next
          case (Inr w3)
          with True Frame \<open>open_write path ?w1 = Inr r\<close> r \<open>frame_encode L dtype f = Inr b\<close>
          have "write_df L path c dtype w = (Inr (), w3)" by (simp add: write_df_def Let_def)
          with store_Inr [OF Inr] w2 show ?thesis by (auto simp: write_outcome_def)
        qed
      qed
    qed
    then show ?thesis by simp
  qed
qed

lemma write_outcome_returns: "write_outcome w r \<Longrightarrow> fst r = Inr ()"
  by (auto simp: write_outcome_def)

lemma read_file_returns: "\<exists>s w'. read_file L path w = (Inr s, w')"
  using read_file_outcome [of L path w] by blast

lemma read_file_async_returns: "\<exists>s w'. read_file_async L path w = (Inr s, w')"
  using read_file_async_outcome [of L path w] by blast

lemma read_df_returns: "\<exists>f w'. read_df L path dtype w = (Inr f, w')"
  using read_df_outcome [of L path dtype w] by blast

lemma write_file_returns: "fst (write_file L path c w) = Inr ()"
  using write_file_outcome by (rule write_outcome_returns)

lemma write_file_async_returns: "fst (write_file_async L path c w) = Inr ()"
  by (simp add: write_file_async_is_write_file write_file_returns)

lemma write_json_returns: "fst (write_json L path c n w) = Inr ()"
  using write_json_outcome by (rule write_outcome_returns)

lemma write_json_async_returns: "fst (write_json_async L path c n w) = Inr ()"
  by (simp add: write_json_async_is_write_json write_json_returns)

lemma write_df_returns: "fst (write_df L path c dtype w) = Inr ()"
  using write_df_outcome [of w L path c dtype] write_outcome_returns by blast

lemma returning_returns:
  "(\<And>w. \<exists>v w'. m w = (Inr v, w')) \<Longrightarrow> \<exists>v w'. returning f m w = (Inr v, w')"
proof -
  assume a: "\<And>w. \<exists>v w'. m w = (Inr v, w')"
  from a [of w] obtain v w' where "m w = (Inr v, w')" by blast
  then show ?thesis by (simp add: returning_def)
qed

lemma read_entry_returns:
  "dtype \<noteq> ''json'' \<Longrightarrow> \<exists>v w'. read_entry L path dtype file w = (Inr v, w')"
  by (simp add: read_entry_def returning_returns read_df_returns read_file_returns)

lemma read_dir_loop_returns:
  "dtype \<noteq> ''json'' \<Longrightarrow> \<exists>m w'. read_dir_loop L path dtype files acc w = (Inr m, w')"
proof (induction files arbitrary: acc w)
  case Nil
  then show ?case by simp
next
  case (Cons f fl)
  from read_entry_returns [OF Cons.prems, of L path f w] obtain v w1 where
    e: "read_entry L path dtype f w = (Inr v, w1)" by blast
  show ?case
  proof (cases "endswith f dtype")
    case True
    with e Cons.IH [OF Cons.prems, of "AList.update (replace f (''.'' @ dtype) []) v acc" w1]
    show ?thesis by simp
  next
    case False
    with Cons.IH [OF Cons.prems, of acc w] show ?thesis by simp
  qed
qed

lemma read_dir_contents_raises:
  assumes "dtype \<noteq> ''json''" and "fst (read_dir_contents L path dtype w) = Inl e"
  shows "listdir w path = Inl e"
proof (cases "path_exists w path \<and> path_isdir w path")
  case False
  with assms(2) show ?thesis by (auto simp: read_dir_contents_def)
next
  case True
  show ?thesis
  proof (cases "listdir w path")
    case (Inl e')
    with True assms(2) show ?thesis by (simp add: read_dir_contents_def)
  next
    case (Inr files)
    with True assms(2) read_dir_loop_returns [OF assms(1), of L path files "[]" w] show ?thesis
      by (auto simp: read_dir_contents_def)
  qed
qed

lemma run_all_no_exn:
  "\<forall>t \<in> set tasks. \<forall>w. \<exists>v w'. t w = (Inr v, w') \<Longrightarrow> first_exn (fst (run_all tasks w)) = None"
proof (induction tasks arbitrary: w)
  case Nil
  then show ?case by simp
next
  case (Cons t ts)
  from Cons.prems obtain v w1 where t: "t w = (Inr v, w1)" by (meson list.set_intros(1))
  obtain rs w2 where ts: "run_all ts w1 = (rs, w2)" by (cases "run_all ts w1")
  from Cons.IH [of w1] Cons.prems ts have "first_exn rs = None" by simp
  with t ts show ?case by simp
qed

lemma gather_returns:
  "\<forall>t \<in> set tasks. \<forall>w. \<exists>v w'. t w = (Inr v, w') \<Longrightarrow> \<exists>vs w'. gather tasks w = (Inr vs, w')"
  using run_all_no_exn [of tasks w] by (auto simp: gather_def split: prod.splits)

lemma read_tasks_return:
  "dtype \<noteq> ''json'' \<Longrightarrow>
   \<forall>t \<in> set (fst (read_tasks L path dtype files)). \<forall>w. \<exists>v w'. t w = (Inr v, w')"
  by (induction files) (auto simp: returning_returns read_file_async_returns split: prod.splits)

lemma read_dir_contents_async_raises:
  assumes "dtype \<noteq> ''json''" and "fst (read_dir_contents_async L path dtype w) = Inl e"
  shows "listdir w path = Inl e"
proof (cases "path_exists w path \<and> path_isdir w path")
  case False
  with assms(2) show ?thesis by (auto simp: read_dir_contents_async_def gather_def)
next
  case True
  show ?thesis
  proof (cases "listdir w path")
    case (Inl e')
    with True assms(2) show ?thesis by (simp add: read_dir_contents_async_def)
  next
    case (Inr files)
    obtain tasks idents where rt: "read_tasks L path dtype files = (tasks, idents)"
      by (cases "read_tasks L path dtype files")
    from read_tasks_return [OF assms(1), of L path files] rt
    have "\<forall>t \<in> set tasks. \<forall>w. \<exists>v w'. t w = (Inr v, w')" by simp
    from gather_returns [OF this, of w] obtain vs w' where "gather tasks w = (Inr vs, w')" by blast
    with True Inr rt assms(2) show ?thesis by (simp add: read_dir_contents_async_def)
  qed
qed

lemma write_entry_returns: "fst (write_entry L path dtype ident c w) = Inr ()"
  by (simp add: write_entry_def Let_def write_json_returns write_df_returns write_file_returns)

lemma write_loop_returns: "fst (write_loop L path dtype contents w) = Inr ()"
proof (induction contents arbitrary: w)
  case Nil
  then show ?case by simp
next
  case (Cons entry rest)
  obtain ident c where entry: "entry = (ident, c)" by (cases entry)
  obtain r w1 where e: "write_entry L path dtype ident c w = (r, w1)"
    by (cases "write_entry L path dtype ident c w")
  with write_entry_returns [of L path dtype ident c w] have "r = Inr ()" by simp
  with entry e Cons.IH [of w1] show ?case by simp
qed

lemma write_task_returns: "\<exists>w'. write_task L path dtype entry w = (Inr (), w')"
proof -
  have "fst (write_task L path dtype entry w) = Inr ()"
    by (simp add: write_task_def Let_def write_json_async_returns write_file_async_returns)
  then show ?thesis by (cases "write_task L path dtype entry w") auto
qed

lemma write_gather_returns:
  "\<exists>vs w'. gather (map (write_task L path dtype) contents) w = (Inr vs, w')"
  by (rule gather_returns) (simp add: write_task_returns)

lemma write_contents_to_dir_raises:
  assumes "fst (write_contents_to_dir L path contents dtype w) = Inl e"
  shows "\<not> path_exists w path \<and> fst (makedirs path w) = Inl e"
proof (cases "path_exists w path")
  case True
  with assms write_loop_returns [of L path dtype contents w] show ?thesis
    by (simp add: write_contents_to_dir_def)
next
  case False
  obtain r w1 where m: "makedirs path w = (r, w1)" by (cases "makedirs path w")
  show ?thesis
  proof (cases r)
    case (Inl e')
    with False m assms show ?thesis by (simp add: write_contents_to_dir_def)
  next
    case (Inr u)
    with False m assms write_loop_returns [of L path dtype contents w1] show ?thesis
      by (simp add: write_contents_to_dir_def)
  qed
qed

lemma write_contents_to_dir_async_raises:
  assumes "fst (write_contents_to_dir_async L path contents dtype w) = Inl e"
  shows "\<not> path_exists w path \<and> fst (makedirs path w) = Inl e"
proof (cases "path_exists w path")
  case True
  from write_gather_returns [of L path dtype contents w] obtain vs w' where
    "gather (map (write_task L path dtype) contents) w = (Inr vs, w')" by blast
  with True assms show ?thesis by (simp add: write_contents_to_dir_async_def)
next
  case False
  obtain r w1 where m: "makedirs path w = (r, w1)" by (cases "makedirs path w")
  from write_gather_returns [of L path dtype contents w1] obtain vs w' where
    g: "gather (map (write_task L path dtype) contents) w1 = (Inr vs, w')" by blast
  show ?thesis
  proof (cases r)
    case (Inl e')
    with False m assms show ?thesis by (simp add: write_contents_to_dir_async_def)
  next
    case (Inr u)
    with False m assms g show ?thesis by (simp add: write_contents_to_dir_async_def)
  qed
qed


lemma read_json_missing:
  "open_read w path = Inl FileNotFoundError \<Longrightarrow>
   read_json L path w = (Inr (JObj []), print (File_not_found path) w) \<and>
   read_json_async L path w = (Inr (JObj []), print (File_not_found path) w)"
  by (simp add: read_json_def read_json_async_def read_text_def)

lemma read_json_malformed:
  "open_read w path = Inr b \<and> text_decode L b = Some s \<and>
     json_loads L (universal_newlines s) = None \<Longrightarrow>
   read_json L path w = (Inr (JObj []), print (File_is_corrupted path) w) \<and>
   read_json_async L path w = (Inr (JObj []), print (File_is_corrupted path) w)"
  by (simp add: read_json_def read_json_async_def read_text_def)

text \<open>What the JSON readers let through: bytes that are not valid text raise
  \<open>UnicodeDecodeError\<close>, which neither \<open>except\<close> clause names.\<close>

lemma read_json_undecodable:
  assumes "open_read w path = Inr b" and "text_decode L b = None"
  shows "read_json L path w = (Inl UnicodeDecodeError, w)"
    and "read_json_async L path w = (Inl UnicodeDecodeError, w)"
  using assms by (simp_all add: read_json_def read_json_async_def read_text_def)




section \<open>Writing a mapping and reading it back\<close>

lemma endswith_append [simp]: "endswith (a @ b) b"
  by (simp add: endswith_def)

lemma startswith_self [simp]: "startswith (s @ r) s"
  by (simp add: startswith_def)

lemma replace_strip:
  assumes "s \<noteq> []" and "\<forall>i < length k. \<not> startswith (drop i (k @ s)) s"
  shows "replace (k @ s) s [] = k"
  using assms(2)
proof (induction k)
  case Nil
  obtain c cs where s: "s = c # cs" using assms(1) by (cases s) auto
  have "startswith (c # cs) (c # cs)" using startswith_self [of "c # cs" "[]"] by simp
  then show ?case unfolding s by simp
next
  case (Cons a k)
  from Cons.prems have "\<not> startswith (drop 0 ((a # k) @ s)) s" by blast
  then have n: "\<not> startswith (a # k @ s) s" by simp
  have "\<forall>i < length k. \<not> startswith (drop i (k @ s)) s"
  proof (intro allI impI)
    fix i assume "i < length k"
    then have "Suc i < length (a # k)" by simp
    with Cons.prems have "\<not> startswith (drop (Suc i) ((a # k) @ s)) s" by blast
    then show "\<not> startswith (drop i (k @ s)) s" by simp
  qed
  from Cons.IH [OF this] n assms(1) show ?case by simp
qed

lemma split_slash_plain: "CHR ''/'' \<notin> set f \<Longrightarrow> split_slash f = [f]"
  by (induction f) auto

lemma universal_newlines_plain: "CHR 0x0D \<notin> set s \<Longrightarrow> universal_newlines s = s"
  by (induction s rule: universal_newlines.induct) auto

lemma children_iff: "n \<in> set (children t d) \<longleftrightarrow> d @ [n] \<in> fst ` set t"
proof
  assume "n \<in> set (children t d)"
  then obtain k where k: "k \<in> fst ` set t" "k \<noteq> []" "butlast k = d" "last k = n"
    by (auto simp: children_def)
  then have "k = d @ [n]" using append_butlast_last_id by metis
  with k show "d @ [n] \<in> fst ` set t" by simp
next
  assume "d @ [n] \<in> fst ` set t"
  then have "d @ [n] \<in> set (filter (\<lambda>k. k \<noteq> [] \<and> butlast k = d) (map fst t))" by simp
  then have "last (d @ [n]) \<in> last ` set (filter (\<lambda>k. k \<noteq> [] \<and> butlast k = d) (map fst t))"
    by (rule imageI)
  then show "n \<in> set (children t d)" by (simp add: children_def)
qed

lemma lookup_keys: "k \<noteq> [] \<Longrightarrow> lookup t k \<noteq> None \<longleftrightarrow> k \<in> fst ` set t"
  by (simp add: lookup_def map_of_eq_None_iff)

lemma walk_stable:
  assumes "\<And>x. lookup t x = Some Dir \<Longrightarrow> lookup t' x = Some Dir"
  shows "walk t cur cs = Inr k \<Longrightarrow> walk t' cur cs = Inr k"
proof (induction cs arbitrary: cur)
  case Nil
  then show ?case by simp
next
  case (Cons c cs)
  from Cons.prems have d: "lookup t cur = Some Dir"
    by (auto split: option.splits node.splits)
  with assms have d': "lookup t' cur = Some Dir" by blast
  show ?case
  proof (cases "c = ''..''")
    case True
    with Cons.prems d have p: "lookup t (butlast cur) = Some Dir"
      and m: "walk t (butlast cur) cs = Inr k" by (auto split: if_splits)
    from assms [OF p] Cons.IH [OF m] True d' show ?thesis by simp
  next
    case False
    with Cons.prems d Cons.IH d' show ?thesis by (auto split: if_splits)
  qed
qed

lemma valid_name_relative: "valid_name f \<Longrightarrow> \<not> startswith f ''/''"
  by (cases f) (auto simp: valid_name_def startswith_def)

lemma path_join_suffix: "\<not> startswith f ''/'' \<Longrightarrow> \<exists>x. path_join p f = x @ f"
  by (auto simp: path_join_def) 

lemma walk_step:
  "lookup t d = Some Dir \<Longrightarrow> valid_name f \<Longrightarrow> walk t d [f] = Inr (d @ [f])"
  by (simp add: valid_name_def)

lemma resolve_child:
  assumes "resolve w p = Inr D" and "lookup (fs w) D = Some Dir" and "valid_name f"
    and "utf8_length (path_join p f) < 4096"
  shows "resolve w (path_join p f) = Inr (D @ [f])"
proof -
  from resolve_Inr [OF assms(1)] have pe: "path_error p = None"
    and wk: "walk (fs w) (start_dir w p) (split_slash p) = Inr D" by simp_all
  from pe have p: "p \<noteq> []" "CHR 0x00 \<notin> set p" by (simp_all add: path_error_None)
  from assms(3) have rel: "\<not> startswith f ''/''" by (rule valid_name_relative)
  from assms(3) have sf: "split_slash f = [f]" by (simp add: valid_name_def split_slash_plain)
  from assms(3) have nf: "CHR 0x00 \<notin> set f" by (simp add: valid_name_def)
  note step = walk_step [OF assms(2,3)]
  show ?thesis
  proof (cases "endswith p ''/''")
    case True
    then obtain b where b: "p = b @ ''/''" using endswith_slash by blast
    from wk have "walk (fs w) (start_dir w p) (split_slash b @ [[]]) = Inr D"
      by (simp add: b split_slash_snoc_slash)
    then have wb: "walk (fs w) (start_dir w p) (split_slash b) = Inr D"
      by (auto simp: walk_append split: sum.splits option.splits node.splits)
    have j: "path_join p f = b @ CHR ''/'' # f" using True rel by (simp add: path_join_def b)
    have sd: "start_dir w (b @ CHR ''/'' # f) = start_dir w p"
      using start_dir_append [of "b @ ''/''" w f] by (simp add: b)
    have ok: "path_error (b @ CHR ''/'' # f) = None"
      using assms(4) p nf unfolding j by (simp add: path_error_None b)
    have "walk (fs w) (start_dir w p) (split_slash b @ [f]) = Inr (D @ [f])"
      using wb step by (simp add: walk_append)
    then show ?thesis unfolding j by (simp add: resolve_walk [OF ok] split_slash_append sf sd)
  next
    case False
    with p rel have j: "path_join p f = p @ CHR ''/'' # f" by (simp add: path_join_def)
    have ok: "path_error (p @ CHR ''/'' # f) = None"
      using assms(4) p nf unfolding j by (simp add: path_error_None)
    have "walk (fs w) (start_dir w p) (split_slash p @ [f]) = Inr (D @ [f])"
      using wk step by (simp add: walk_append)
    with p show ?thesis unfolding j by (simp add: resolve_walk [OF ok] split_slash_append sf)
  qed
qed

lemma open_write_child:
  assumes "resolve w p = Inr D" and "lookup (fs w) D = Some Dir" and "valid_name f"
    and "utf8_length (path_join p f) < 4096"
    and "lookup (fs w) (D @ [f]) \<noteq> Some Dir" and "fault w Writing (D @ [f]) = None"
  shows "open_write (path_join p f) w = Inr (D @ [f], put (D @ [f]) [] w)"
  using resolve_child [OF assms(1-4)] assms(2,5,6)
  by (auto simp: open_write_def truncate_def split: option.splits node.splits)

lemma open_read_child:
  assumes "resolve w p = Inr D" and "lookup (fs w) D = Some Dir" and "valid_name f"
    and "utf8_length (path_join p f) < 4096"
    and "lookup (fs w) (D @ [f]) = Some (File b)" and "fault w Reading (D @ [f]) = None"
  shows "open_read w (path_join p f) = Inr b"
  using resolve_child [OF assms(1-4)] assms(5,6) by (simp add: open_read_def)

lemma plain_entry_valid: "plain_entry i dtype \<Longrightarrow> valid_name (i @ ''.'' @ dtype)"
  by (simp add: plain_entry_def Let_def)

lemma json_path_child:
  "\<not> startswith (i @ ''.json'') ''/'' \<Longrightarrow> json_path (path_join p (i @ ''.json'')) = path_join p (i @ ''.json'')"
proof -
  assume "\<not> startswith (i @ ''.json'') ''/''"
  from path_join_suffix [OF this, of p] obtain x where x: "path_join p (i @ ''.json'') = x @ i @ ''.json''"
    by auto
  have "endswith ((x @ i) @ ''.json'') ''.json''" by (rule endswith_append)
  then show ?thesis by (simp add: json_path_def x)
qed

lemma fault_put [simp]: "fault (put k b w) a x = fault w a x"
  by (simp add: fault_def put_def)

lemma text_round_trip_Some:
  "text_round_trip L s = Some t \<Longrightarrow>
   \<exists>b u. text_encode L s = Some b \<and> text_decode L b = Some u \<and> universal_newlines u = t"
  by (auto simp: text_round_trip_def split: option.splits)

lemma write_text_stored:
  "text_encode L s = Some b \<Longrightarrow> fault w Storing k = None \<Longrightarrow> write_text L k s w = Inr (put k b w)"
  by (simp add: write_text_def store_def)

lemma write_entry_child:
  assumes "resolve w p = Inr D" and "lookup (fs w) D = Some Dir"
    and "plain_entry i dtype" and "storable L dtype c" and "dtype \<notin> set tabular"
    and "utf8_length (path_join p (i @ ''.'' @ dtype)) < 4096"
    and "lookup (fs w) (D @ [i @ ''.'' @ dtype]) \<noteq> Some Dir"
    and "fault w Writing (D @ [i @ ''.'' @ dtype]) = None"
    and "fault w Storing (D @ [i @ ''.'' @ dtype]) = None"
  shows "\<exists>b. write_entry L p dtype i c w =
            (Inr (), put (D @ [i @ ''.'' @ dtype]) b (put (D @ [i @ ''.'' @ dtype]) [] w)) \<and>
          reads_back L dtype b c"
proof -
  let ?f = "i @ ''.'' @ dtype"
  let ?K = "D @ [?f]"
  from assms(3) have v: "valid_name ?f" by (rule plain_entry_valid)
  note ow = open_write_child [OF assms(1,2) v assms(6,7,8)]
  have st: "fault (put ?K [] w) Storing ?K = None" using assms(9) by simp
  show ?thesis
  proof (cases "dtype = ''json''")
    case True
    with assms(4) obtain j t where j: "c = Json j"
      "text_round_trip L (json_dumps L j 4) = Some t" "json_loads L t = Some j"
      by (cases c) (auto simp: storable_def split: option.splits)
    from text_round_trip_Some [OF j(2)] obtain b u where
      b: "text_encode L (json_dumps L j 4) = Some b" "text_decode L b = Some u"
        "universal_newlines u = t" by blast
    from v True have "\<not> startswith (i @ ''.json'') ''/''" using valid_name_relative by auto
    from json_path_child [OF this, of p] True
    have jp: "json_path (path_join p ?f) = path_join p ?f" by simp
    have "write_entry L p dtype i c w = (Inr (), put ?K b (put ?K [] w))"
      using True j(1) ow jp write_text_stored [OF b(1) st]
      by (simp add: write_entry_def Let_def write_json_def)
    moreover have "reads_back L dtype b c"
      using True j(1,3) b(2,3) by (simp add: reads_back_def)
    ultimately show ?thesis by blast
  next
    case False
    with assms(4) obtain s where s: "c = Json (JStr s)" "text_round_trip L s = Some s"
      by (cases c) (auto simp: storable_def split: json.splits)
    from text_round_trip_Some [OF s(2)] obtain b u where
      b: "text_encode L s = Some b" "text_decode L b = Some u" "universal_newlines u = s" by blast
    have "write_entry L p dtype i c w = (Inr (), put ?K b (put ?K [] w))"
      using False assms(5) s(1) ow write_text_stored [OF b(1) st]
      by (simp add: write_entry_def Let_def write_file_def)
    moreover have "reads_back L dtype b c"
      using False s(1) b(2,3) by (simp add: reads_back_def)
    ultimately show ?thesis by blast
  qed
qed

lemma read_entry_child:
  assumes "resolve w p = Inr D" and "lookup (fs w) D = Some Dir" and "valid_name f"
    and "utf8_length (path_join p f) < 4096"
    and "lookup (fs w) (D @ [f]) = Some (File b)" and "fault w Reading (D @ [f]) = None"
    and "reads_back L dtype b c" and "dtype \<notin> set tabular"
  shows "read_entry L p dtype f w = (Inr c, w)"
proof -
  note rd = open_read_child [OF assms(1-6)]
  from assms(7) obtain t where t: "text_decode L b = Some t"
    by (auto simp: reads_back_def split: option.splits)
  with rd have rt: "read_text L w (path_join p f) = Inr (universal_newlines t)"
    by (simp add: read_text_def)
  show ?thesis
  proof (cases "dtype = ''json''")
    case True
    with assms(7) t obtain j where "c = Json j" "json_loads L (universal_newlines t) = Some j"
      by (cases c) (auto simp: reads_back_def)
    with True rt show ?thesis by (simp add: read_entry_def returning_def read_json_def)
  next
    case False
    with assms(7) t have "c = Json (JStr (universal_newlines t))" by (simp add: reads_back_def)
    with False assms(8) rt show ?thesis by (simp add: read_entry_def returning_def read_file_def)
  qed
qed

lemma lookup_put:
  "k \<noteq> [] \<Longrightarrow> lookup (fs (put k d w)) x = (if x = k then Some (File d) else lookup (fs w) x)"
  by (simp add: put_def lookup_def update_conv')

lemma keys_put: "fst ` set (fs (put k d w)) = insert k (fst ` set (fs w))"
  by (simp add: put_def dom_update)

lemma put_other [simp]: "cwd (put k d w) = cwd w" "out (put k d w) = out w"
  by (simp_all add: put_def)

lemma resolve_stable:
  assumes "cwd w' = cwd w"
    and "\<And>x. lookup (fs w) x = Some Dir \<Longrightarrow> lookup (fs w') x = Some Dir"
    and "resolve w p = Inr D"
  shows "resolve w' p = Inr D"
proof -
  from resolve_Inr [OF assms(3)] have pe: "path_error p = None"
    and wk: "walk (fs w) (start_dir w p) (split_slash p) = Inr D" by simp_all
  from walk_stable [of "fs w" "fs w'", OF assms(2) wk]
  have "walk (fs w') (start_dir w p) (split_slash p) = Inr D" .
  moreover from assms(1) have "start_dir w' p = start_dir w p" by (simp add: start_dir_def)
  ultimately show ?thesis using pe by (simp add: resolve_def)
qed

lemma refused_put [simp]: "refused (put k b w) = refused w"
  by (simp add: put_def)

lemma write_loop_dir:
  assumes "resolve w p = Inr D" and "lookup (fs w) D = Some Dir" and "dtype \<notin> set tabular"
    and "\<forall>(i, c) \<in> set es. plain_entry i dtype \<and> storable L dtype c \<and>
           utf8_length (path_join p (i @ ''.'' @ dtype)) < 4096 \<and>
           fault w Writing (D @ [i @ ''.'' @ dtype]) = None \<and>
           fault w Storing (D @ [i @ ''.'' @ dtype]) = None"
    and "distinct (map fst es)"
    and "\<forall>(i, c) \<in> set es. lookup (fs w) (D @ [i @ ''.'' @ dtype]) \<noteq> Some Dir"
  shows "\<exists>w'. write_loop L p dtype es w = (Inr (), w') \<and> cwd w' = cwd w \<and> out w' = out w \<and>
           refused w' = refused w \<and>
           (\<forall>x. x \<notin> (\<lambda>e. D @ [fst e @ ''.'' @ dtype]) ` set es \<longrightarrow>
                lookup (fs w') x = lookup (fs w) x) \<and>
           (\<forall>(i, c) \<in> set es. \<exists>d. lookup (fs w') (D @ [i @ ''.'' @ dtype]) = Some (File d) \<and>
                reads_back L dtype d c) \<and>
           fst ` set (fs w') = fst ` set (fs w) \<union> (\<lambda>e. D @ [fst e @ ''.'' @ dtype]) ` set es"
  using assms(1,2,4,5,6)
proof (induction es arbitrary: w)
  case Nil
  then show ?case by simp
next
  case (Cons e rest)
  obtain i c where e: "e = (i, c)" by (cases e)
  let ?K = "D @ [i @ ''.'' @ dtype]"
  let ?keys = "(\<lambda>e. D @ [fst e @ ''.'' @ dtype]) ` set rest"
  from Cons.prems(3) e have pe: "plain_entry i dtype" and st: "storable L dtype c"
    and len: "utf8_length (path_join p (i @ ''.'' @ dtype)) < 4096"
    and fw: "fault w Writing ?K = None" and fst: "fault w Storing ?K = None" by auto
  from Cons.prems(5) e have free: "lookup (fs w) ?K \<noteq> Some Dir" by auto
  from write_entry_child [OF Cons.prems(1,2) pe st assms(3) len free fw fst]
  obtain d where d: "write_entry L p dtype i c w = (Inr (), put ?K d (put ?K [] w))"
    and rb: "reads_back L dtype d c" by blast
  let ?w1 = "put ?K d (put ?K [] w)"
  have l1: "lookup (fs ?w1) x = (if x = ?K then Some (File d) else lookup (fs w) x)" for x
    by (simp add: lookup_put)
  have k1: "fst ` set (fs ?w1) = insert ?K (fst ` set (fs w))"
    by (simp add: keys_put)
  have c1: "cwd ?w1 = cwd w" "out ?w1 = out w" "refused ?w1 = refused w" by simp_all
  have dirs: "lookup (fs ?w1) x = Some Dir" if "lookup (fs w) x = Some Dir" for x
    using that free l1 [of x] by (auto split: if_splits)
  have r1: "resolve ?w1 p = Inr D"
    using resolve_stable [of ?w1 w p D] c1(1) dirs Cons.prems(1) by blast
  have d1: "lookup (fs ?w1) D = Some Dir" using Cons.prems(2) by (rule dirs)
  have ok1: "\<forall>(i, c) \<in> set rest. plain_entry i dtype \<and> storable L dtype c \<and>
           utf8_length (path_join p (i @ ''.'' @ dtype)) < 4096 \<and>
           fault ?w1 Writing (D @ [i @ ''.'' @ dtype]) = None \<and>
           fault ?w1 Storing (D @ [i @ ''.'' @ dtype]) = None"
    using Cons.prems(3) by simp
  have dist1: "distinct (map fst rest)" using Cons.prems(4) by simp
  have free1: "\<forall>(i, c) \<in> set rest. lookup (fs ?w1) (D @ [i @ ''.'' @ dtype]) \<noteq> Some Dir"
  proof (clarify)
    fix i' c' assume m: "(i', c') \<in> set rest"
      and dr: "lookup (fs ?w1) (D @ [i' @ ''.'' @ dtype]) = Some Dir"
    from m Cons.prems(5) have "lookup (fs w) (D @ [i' @ ''.'' @ dtype]) \<noteq> Some Dir" by auto
    with dr l1 [of "D @ [i' @ ''.'' @ dtype]"] show False by (auto split: if_splits)
  qed
  from Cons.IH [OF r1 d1 ok1 dist1 free1] obtain w' where
    w': "write_loop L p dtype rest ?w1 = (Inr (), w')" "cwd w' = cwd ?w1" "out w' = out ?w1"
      "refused w' = refused ?w1"
      "\<forall>x. x \<notin> ?keys \<longrightarrow> lookup (fs w') x = lookup (fs ?w1) x"
      "\<forall>(i, c) \<in> set rest. \<exists>d. lookup (fs w') (D @ [i @ ''.'' @ dtype]) = Some (File d) \<and>
                reads_back L dtype d c"
      "fst ` set (fs w') = fst ` set (fs ?w1) \<union> ?keys"
    by blast
  have notin: "?K \<notin> ?keys"
  proof
    assume "?K \<in> ?keys"
    then obtain e' where "e' \<in> set rest" "fst e' = i" by auto
    then have "i \<in> fst ` set rest" by force
    with Cons.prems(4) e show False by simp
  qed
  have a: "write_loop L p dtype (e # rest) w = (Inr (), w')"
    using e d w'(1) by simp
  have b: "cwd w' = cwd w" "out w' = out w" "refused w' = refused w"
    using w'(2,3,4) c1 by simp_all
  have u: "\<forall>x. x \<notin> (\<lambda>e. D @ [fst e @ ''.'' @ dtype]) ` set (e # rest) \<longrightarrow>
                lookup (fs w') x = lookup (fs w) x"
  proof (intro allI impI)
    fix x assume x: "x \<notin> (\<lambda>e. D @ [fst e @ ''.'' @ dtype]) ` set (e # rest)"
    then have "x \<noteq> ?K" "x \<notin> ?keys" using e by auto
    with w'(5) l1 [of x] show "lookup (fs w') x = lookup (fs w) x" by simp
  qed
  have here: "lookup (fs w') ?K = Some (File d)"
    using w'(5) notin l1 [of ?K] by simp
  have f: "\<forall>(i, c) \<in> set (e # rest). \<exists>d. lookup (fs w') (D @ [i @ ''.'' @ dtype]) = Some (File d) \<and>
                reads_back L dtype d c"
    using w'(6) here rb e by auto
  have k: "fst ` set (fs w') = fst ` set (fs w) \<union> (\<lambda>e. D @ [fst e @ ''.'' @ dtype]) ` set (e # rest)"
    using w'(7) k1 e by auto
  from a b u f k show ?case by blast
qed

lemma plain_entry_replace:
  assumes "plain_entry i dtype"
  shows "replace (i @ ''.'' @ dtype) (''.'' @ dtype) [] = i"
proof -
  from assms have "\<forall>k < length i. \<not> startswith (drop k (i @ ''.'' @ dtype)) (''.'' @ dtype)"
    by (simp add: plain_entry_def Let_def)
  with replace_strip [of "''.'' @ dtype" i] show ?thesis by simp
qed

lemma endswith_name: "endswith (i @ ''.'' @ dtype) dtype"
  using endswith_append [of "i @ ''.''" dtype] by simp

lemma read_dir_loop_dir:
  assumes "resolve w p = Inr D" and "lookup (fs w) D = Some Dir" and "dtype \<notin> set tabular"
    and "distinct (map fst es)"
    and "\<forall>(i, c) \<in> set es. plain_entry i dtype \<and>
           utf8_length (path_join p (i @ ''.'' @ dtype)) < 4096 \<and>
           fault w Reading (D @ [i @ ''.'' @ dtype]) = None \<and>
           (\<exists>d. lookup (fs w) (D @ [i @ ''.'' @ dtype]) = Some (File d) \<and> reads_back L dtype d c)"
    and "\<forall>f \<in> set fl. endswith f dtype \<longrightarrow> f \<in> (\<lambda>e. fst e @ ''.'' @ dtype) ` set es"
  shows "\<exists>m. read_dir_loop L p dtype fl acc w = (Inr m, w) \<and>
           (\<forall>x. map_of m x =
              (if x \<in> fst ` {e \<in> set es. fst e @ ''.'' @ dtype \<in> set fl} then map_of es x
               else map_of acc x))"
  using assms(6)
proof (induction fl arbitrary: acc)
  case Nil
  then show ?case by simp
next
  case (Cons f fl)
  from Cons.prems have rest: "\<forall>f \<in> set fl. endswith f dtype \<longrightarrow> f \<in> (\<lambda>e. fst e @ ''.'' @ dtype) ` set es"
    by simp
  show ?case
  proof (cases "endswith f dtype")
    case False
    from Cons.IH [OF rest, of acc] obtain m where
      m: "read_dir_loop L p dtype fl acc w = (Inr m, w)"
        "\<forall>x. map_of m x =
              (if x \<in> fst ` {e \<in> set es. fst e @ ''.'' @ dtype \<in> set fl} then map_of es x
               else map_of acc x)" by blast
    have "{e \<in> set es. fst e @ ''.'' @ dtype \<in> set (f # fl)} = {e \<in> set es. fst e @ ''.'' @ dtype \<in> set fl}"
      using False endswith_name by auto
    with m False show ?thesis by simp
  next
    case True
    with Cons.prems obtain i c where ic: "(i, c) \<in> set es" "f = i @ ''.'' @ dtype" by auto
    from assms(5) ic(1) obtain d where pe: "plain_entry i dtype"
      and len: "utf8_length (path_join p (i @ ''.'' @ dtype)) < 4096"
      and fr: "fault w Reading (D @ [i @ ''.'' @ dtype]) = None"
      and d: "lookup (fs w) (D @ [i @ ''.'' @ dtype]) = Some (File d)" "reads_back L dtype d c"
      by blast
    from plain_entry_valid [OF pe] have v: "valid_name f" by (simp add: ic(2))
    from d(1) have lf: "lookup (fs w) (D @ [f]) = Some (File d)" by (simp add: ic(2))
    from len have len': "utf8_length (path_join p f) < 4096" by (simp add: ic(2))
    from fr have fr': "fault w Reading (D @ [f]) = None" by (simp add: ic(2))
    from read_entry_child [OF assms(1,2) v len' lf fr' d(2) assms(3)]
    have rd: "read_entry L p dtype f w = (Inr c, w)" .
    from plain_entry_replace [OF pe] have rp: "replace f (''.'' @ dtype) [] = i" by (simp add: ic(2))
    from Cons.IH [OF rest, of "AList.update i c acc"] obtain m where
      m: "read_dir_loop L p dtype fl (AList.update i c acc) w = (Inr m, w)"
        "\<forall>x. map_of m x =
              (if x \<in> fst ` {e \<in> set es. fst e @ ''.'' @ dtype \<in> set fl} then map_of es x
               else map_of (AList.update i c acc) x)" by blast
    have run: "read_dir_loop L p dtype (f # fl) acc w = (Inr m, w)"
      using True rd rp m(1) by simp
    have mi: "map_of es i = Some c" using assms(4) ic(1) by simp
    have sets: "fst ` {e \<in> set es. fst e @ ''.'' @ dtype \<in> set (f # fl)} =
                insert i (fst ` {e \<in> set es. fst e @ ''.'' @ dtype \<in> set fl})"
      using ic by force
    have "\<forall>x. map_of m x =
              (if x \<in> fst ` {e \<in> set es. fst e @ ''.'' @ dtype \<in> set (f # fl)} then map_of es x
               else map_of acc x)"
      unfolding sets using m(2) mi by (auto simp: update_conv')
    with run show ?thesis by blast
  qed
qed




end
